theory Spec2Isabelle
  imports Main "HOL-Library.Sublist"
begin

text \<open>
  A shallow embedding of the CalDAV tool server: the URL normalizer and the account
  resolver, the account methods \<open>list_events\<close>, \<open>create_event\<close> and
  \<open>delete_event\<close> (client.py), and the tool handlers built on them (tools/events.py).
  The CalDAV client, the iCalendar parser, the date parser and the server are parameters
  of the model (record \<open>platform\<close>); the URL parser is modelled after the standard
  library. A Python string is a list of characters.
\<close>

section \<open>Errors\<close>

text \<open>
  Every exception the modelled code can raise is a value. \<open>ValueError\<close> carries its
  message, since the tool handlers build messages that callers read. \<open>DAVError\<close> stands
  for any error of the protocol client (network, HTTP status), \<open>ParseError\<close> for a
  failure of the iCalendar parser.
\<close>

datatype error =
    ValueError string
  | AttributeError
  | TypeError
  | OverflowError
  | ParseError
  | DAVError string

section \<open>URL parsing primitive (urllib.parse)\<close>

text \<open>
  \<open>_normalize_url\<close> calls \<open>urlparse(url).path\<close>. The functions below follow
  \<open>urlsplit\<close>, \<open>_splitnetloc\<close>, \<open>urlparse\<close> and \<open>_splitparams\<close> of the standard
  library, keeping only what decides the \<open>path\<close> field. A Python \<open>s.find(c)\<close> followed
  by the slices \<open>s[:i]\<close> and \<open>s[i:]\<close> is written \<open>takeWhile\<close> / \<open>dropWhile\<close> on
  \<open>\<lambda>x. x \<noteq> c\<close>.
\<close>

definition WHATWG_C0_CONTROL_OR_SPACE :: "char \<Rightarrow> bool" where
  "WHATWG_C0_CONTROL_OR_SPACE c = ((of_char c :: nat) \<le> 32)"

definition UNSAFE_URL_BYTES_TO_REMOVE :: "char list" where
  "UNSAFE_URL_BYTES_TO_REMOVE = [CHR 0x09, CHR 0x0D, CHR 0x0A]"

definition scheme_chars :: "char list" where
  "scheme_chars = ''abcdefghijklmnopqrstuvwxyz'' @ ''ABCDEFGHIJKLMNOPQRSTUVWXYZ''
                  @ ''0123456789'' @ ''+-.''"

definition uses_params :: "string list" where
  "uses_params = ['''', ''ftp'', ''hdl'', ''prospero'', ''http'', ''imap'',
                  ''https'', ''shttp'', ''rtsp'', ''rtsps'', ''rtspu'', ''sip'',
                  ''sips'', ''mms'', ''sftp'', ''tel'']"

definition is_ascii_alpha :: "char \<Rightarrow> bool" where
  "is_ascii_alpha c = (let n = (of_char c :: nat) in (65 \<le> n \<and> n \<le> 90) \<or> (97 \<le> n \<and> n \<le> 122))"

definition lower_char :: "char \<Rightarrow> char" where
  "lower_char c = (let n = (of_char c :: nat) in if 65 \<le> n \<and> n \<le> 90 then char_of (n + 32) else c)"

text \<open>\<open>url[:2] == '//'\<close>\<close>

fun starts_with :: "string \<Rightarrow> string \<Rightarrow> bool" where
  "starts_with s [] = True"
| "starts_with [] (p # ps) = False"
| "starts_with (c # cs) (p # ps) = (c = p \<and> starts_with cs ps)"

text \<open>
  The scheme step of \<open>urlsplit\<close>: \<open>i = url.find(':')\<close>; when \<open>i > 0\<close>, the first
  character is an ASCII letter and every character of \<open>url[:i]\<close> is a scheme character,
  the result is \<open>(url[:i].lower(), url[i+1:])\<close>; otherwise the scheme is empty and the
  URL is kept.
\<close>

definition split_scheme :: "string \<Rightarrow> string \<times> string" where
  "split_scheme url =
     (let pre = takeWhile (\<lambda>x. x \<noteq> CHR '':'') url in
      if CHR '':'' \<in> set url \<and> pre \<noteq> [] \<and> is_ascii_alpha (hd pre)
         \<and> list_all (\<lambda>c. c \<in> set scheme_chars) pre
      then (map lower_char pre, tl (dropWhile (\<lambda>x. x \<noteq> CHR '':'') url))
      else ('''', url))"

text \<open>
  \<open>_splitnetloc(url, 2)\<close>: the network location runs from index 2 to the earliest of
  \<open>/\<close>, \<open>?\<close>, \<open>#\<close> (or the end); the rest starts at that delimiter.
\<close>

definition netloc_delim :: "char \<Rightarrow> bool" where
  "netloc_delim c = (c = CHR ''/'' \<or> c = CHR ''?'' \<or> c = CHR ''#'')"

definition splitnetloc :: "string \<Rightarrow> string \<times> string" where
  "splitnetloc url =
     (takeWhile (\<lambda>c. \<not> netloc_delim c) (drop 2 url),
      dropWhile (\<lambda>c. \<not> netloc_delim c) (drop 2 url))"

text \<open>
  \<open>urlsplit\<close>, returning the scheme and the path. \<open>netloc_check\<close> is the parser's further
  validation of the network location (\<open>_check_bracketed_host\<close>, which needs the
  \<open>ipaddress\<close> module, and the NFKC test of \<open>_checknetloc\<close>): it depends on the network
  location only and either passes (\<open>None\<close>) or raises \<open>ValueError\<close> with the message it
  gives. It is a parameter of the model; every result below holds whatever it is.
\<close>

definition urlsplit :: "(string \<Rightarrow> string option) \<Rightarrow> string \<Rightarrow> error + (string \<times> string)" where
  "urlsplit netloc_check url0 =
     (let url1 = dropWhile WHATWG_C0_CONTROL_OR_SPACE url0;
          url2 = filter (\<lambda>c. c \<notin> set UNSAFE_URL_BYTES_TO_REMOVE) url1;
          (scheme, url3) = split_scheme url2;
          (netloc, url4) = (if starts_with url3 ''//'' then splitnetloc url3 else ('''', url3))
      in if (CHR ''['' \<in> set netloc \<and> CHR '']'' \<notin> set netloc)
            \<or> (CHR '']'' \<in> set netloc \<and> CHR ''['' \<notin> set netloc)
         then Inl (ValueError ''Invalid IPv6 URL'')
         else (case netloc_check netloc of
                 Some msg \<Rightarrow> Inl (ValueError msg)
               | None \<Rightarrow>
                   (let url5 = takeWhile (\<lambda>x. x \<noteq> CHR ''#'') url4;
                        url6 = takeWhile (\<lambda>x. x \<noteq> CHR ''?'') url5
                    in Inr (scheme, url6))))"

text \<open>
  \<open>_splitparams(url)[0]\<close>: with a slash in the URL, the parameters start at the first
  \<open>;\<close> at or after the last slash (none: the URL is returned whole); without a slash,
  at the first \<open>;\<close>.
\<close>

definition splitparams :: "string \<Rightarrow> string" where
  "splitparams url =
     (if CHR ''/'' \<in> set url
      then (let last_seg = rev (takeWhile (\<lambda>x. x \<noteq> CHR ''/'') (rev url));
                upto_slash = take (length url - length last_seg) url
            in upto_slash @ takeWhile (\<lambda>x. x \<noteq> CHR '';'') last_seg)
      else takeWhile (\<lambda>x. x \<noteq> CHR '';'') url)"

text \<open>\<open>urlparse(url).path\<close>\<close>

definition urlparse_path :: "(string \<Rightarrow> string option) \<Rightarrow> string \<Rightarrow> error + string" where
  "urlparse_path netloc_check url =
     (case urlsplit netloc_check url of
        Inl e \<Rightarrow> Inl e
      | Inr (scheme, path) \<Rightarrow>
          if scheme \<in> set uses_params \<and> CHR '';'' \<in> set path
          then Inr (splitparams path) else Inr path)"

section \<open>URL normalizer\<close>

text \<open>\<open>CalDAVAccount._normalize_url\<close> (client.py)\<close>

definition normalize_url :: "(string \<Rightarrow> string option) \<Rightarrow> string \<Rightarrow> error + string" where
  "normalize_url netloc_check url =
     (if starts_with url ''http://'' \<or> starts_with url ''https://''
      then urlparse_path netloc_check url
      else Inr url)"

section \<open>Dates and times (datetime)\<close>

text \<open>
  A Python \<open>date\<close> is its proleptic Gregorian ordinal (\<open>date.toordinal\<close>, a bijection
  between the dates and \<open>1 .. 3652059\<close>). A \<open>datetime\<close> is a date, a time of day and an
  optional \<open>tzinfo\<close>.
\<close>

type_synonym date = int

datatype tzinfo = FixedOffset int | NamedZone string

record datetime =
  ordinal :: int
  hour :: nat
  minute :: nat
  second :: nat
  microsecond :: nat
  tz :: "tzinfo option"

definition MAXORDINAL :: int where
  "MAXORDINAL = 3652059"

text \<open>
  \<open>dt + timedelta(days=n)\<close>: the day count moves by \<open>n\<close>, the time of day and the
  \<open>tzinfo\<close> stay; a result outside \<open>0 < days \<le> MAXORDINAL\<close> raises \<open>OverflowError\<close>.
\<close>

definition add_days :: "datetime \<Rightarrow> int \<Rightarrow> error + datetime" where
  "add_days dt n =
     (let days = ordinal dt + n
      in if 0 < days \<and> days \<le> MAXORDINAL then Inr (dt\<lparr>ordinal := days\<rparr>)
         else Inl OverflowError)"

text \<open>\<open>datetime.combine(d, datetime.min.time())\<close>: the date at 00:00:00, naive.\<close>

definition combine_midnight :: "date \<Rightarrow> datetime" where
  "combine_midnight d =
     \<lparr>ordinal = d, hour = 0, minute = 0, second = 0, microsecond = 0, tz = None\<rparr>"

section \<open>Data model (client.py)\<close>

record CalendarInfo =
  ci_name :: string
  url :: string
  account_name :: string

record EventInfo =
  ev_uid :: string
  ev_summary :: string
  ev_start :: datetime
  ev_end :: datetime
  calendar_url :: string
  ev_description :: "string option"
  ev_location :: "string option"

text \<open>Handles of the protocol client: opaque but for what they were made from.\<close>

datatype DAVClient = DAVClient string string string

datatype Principal = Principal

datatype Calendar = Calendar string

record CalDAVAccount =
  name :: string
  base_url :: string
  username :: string
  password :: string
  client :: "DAVClient option"
  principal :: "Principal option"
  calendars :: "CalendarInfo list"

section \<open>iCalendar objects as the code reads them\<close>

text \<open>
  The value of a \<open>DTSTART\<close>/\<open>DTEND\<close> property (\<open>.dt\<close>): a \<open>datetime\<close>, a plain
  \<open>date\<close>, or another value (a duration, a time, a period), which is neither.
\<close>

datatype dt_value = DateTimeValue datetime | DateValue date | OtherValue

text \<open>
  A component as \<open>ical.walk()\<close> yields it: its name and the properties the code reads
  with \<open>component.get\<close> (\<open>None\<close>: the property is absent).
\<close>

record component =
  comp_name :: string
  uid :: "string option"
  summary :: "string option"
  dtstart :: "dt_value option"
  dtend :: "dt_value option"
  description :: "string option"
  location :: "string option"

text \<open>A calendar object resource of the server (\<open>caldav.Event\<close>): its address and raw data.\<close>

record CalendarObject =
  href :: string
  data :: string

text \<open>The event \<open>create_event\<close> builds before it is serialised.\<close>

record new_event =
  ne_uid :: string
  ne_summary :: string
  ne_dtstart :: datetime
  ne_dtend :: datetime
  ne_description :: "string option"
  ne_location :: "string option"
  ne_dtstamp :: datetime

datatype log_record =
    LogInfo string
  | LogWarning string error
  | LogError string error

text \<open>
  The libraries and the server the code calls, as parameters: each function is what the
  call returns, \<open>Inl\<close> (or \<open>Some\<close> for a call without result) when it raises.
  \<^item> \<open>netloc_check\<close>: see \<open>urlsplit\<close>;
  \<^item> \<open>client_calendar\<close>: \<open>client.calendar(url=...)\<close>;
  \<^item> \<open>date_search\<close>: \<open>calendar.date_search(start, end, expand=True)\<close>;
  \<^item> \<open>calendar_events\<close>: \<open>calendar.events()\<close>;
  \<^item> \<open>from_ical\<close>: \<open>Calendar.from_ical(event.data)\<close> followed by \<open>walk()\<close>;
  \<^item> \<open>event_delete\<close>: \<open>event.delete()\<close>;
  \<^item> \<open>save_event\<close>: serialising the new event and \<open>calendar.save_event\<close>;
  \<^item> \<open>fromisoformat\<close>, \<open>isoformat\<close>: the platform's ISO-8601 parser and printer.
\<close>

record platform =
  netloc_check :: "string \<Rightarrow> string option"
  client_calendar :: "DAVClient \<Rightarrow> string \<Rightarrow> error + Calendar"
  date_search :: "Calendar \<Rightarrow> datetime \<Rightarrow> datetime \<Rightarrow> error + CalendarObject list"
  calendar_events :: "Calendar \<Rightarrow> error + CalendarObject list"
  from_ical :: "string \<Rightarrow> error + component list"
  event_delete :: "CalendarObject \<Rightarrow> error option"
  save_event :: "Calendar \<Rightarrow> new_event \<Rightarrow> error option"
  fromisoformat :: "string \<Rightarrow> error + datetime"
  isoformat :: "datetime \<Rightarrow> string"

section \<open>CalDAVAccount methods (client.py)\<close>

text \<open>
  The loop of \<open>get_calendar_by_url\<close> over \<open>self.calendars\<close>; any exception leaves the
  loop (\<open>Inl\<close>).
\<close>

fun find_calendar :: "platform \<Rightarrow> DAVClient \<Rightarrow> string \<Rightarrow> CalendarInfo list \<Rightarrow> error + Calendar option" where
  "find_calendar P cl normalized_url [] = Inr None"
| "find_calendar P cl normalized_url (cal_info # rest) =
     (case normalize_url (netloc_check P) (url cal_info) of
        Inl e \<Rightarrow> Inl e
      | Inr n \<Rightarrow>
          if n = normalized_url
          then (case client_calendar P cl (url cal_info) of
                  Inl e \<Rightarrow> Inl e
                | Inr c \<Rightarrow> Inr (Some c))
          else find_calendar P cl normalized_url rest)"

text \<open>
  \<open>get_calendar_by_url\<close>: \<open>None\<close> without a client or a principal; an exception inside
  the \<open>try\<close> is logged and gives \<open>None\<close>.
\<close>

definition get_calendar_by_url :: "platform \<Rightarrow> CalDAVAccount \<Rightarrow> string \<Rightarrow> Calendar option \<times> log_record list" where
  "get_calendar_by_url P self u =
     (case (client self, principal self) of
        (Some cl, Some pr) \<Rightarrow>
          (case normalize_url (netloc_check P) u of
             Inl e \<Rightarrow> (None, [LogError (''Error getting calendar by URL '' @ u) e])
           | Inr normalized_url \<Rightarrow>
               (case find_calendar P cl normalized_url (calendars self) of
                  Inl e \<Rightarrow> (None, [LogError (''Error getting calendar by URL '' @ u) e])
                | Inr r \<Rightarrow> (r, [])))
      | _ \<Rightarrow> (None, []))"

text \<open>\<open>isinstance(v, datetime)\<close>, else \<open>datetime.combine(v, datetime.min.time())\<close>.\<close>

fun to_datetime :: "dt_value \<Rightarrow> error + datetime" where
  "to_datetime (DateTimeValue d) = Inr d"
| "to_datetime (DateValue d) = Inr (combine_midnight d)"
| "to_datetime OtherValue = Inl TypeError"

text \<open>\<open>str(x) if x else None\<close>\<close>

fun str_or_none :: "string option \<Rightarrow> string option" where
  "str_or_none None = None"
| "str_or_none (Some s) = (if s = [] then None else Some s)"

text \<open>\<open>str(component.get(key, ""))\<close>\<close>

fun get_str :: "string option \<Rightarrow> string" where
  "get_str None = []"
| "get_str (Some s) = s"

text \<open>
  The body of \<open>if component.name == "VEVENT"\<close> in \<open>list_events\<close>: \<open>.dt\<close> of an absent
  property is an \<open>AttributeError\<close>.
\<close>

definition event_info :: "string \<Rightarrow> component \<Rightarrow> error + EventInfo" where
  "event_info cal_url c =
     (case dtstart c of
        None \<Rightarrow> Inl AttributeError
      | Some event_start \<Rightarrow>
     (case dtend c of
        None \<Rightarrow> Inl AttributeError
      | Some event_end \<Rightarrow>
     (case to_datetime event_start of
        Inl e \<Rightarrow> Inl e
      | Inr start_dt \<Rightarrow>
     (case to_datetime event_end of
        Inl e \<Rightarrow> Inl e
      | Inr end_dt \<Rightarrow>
          Inr \<lparr>ev_uid = get_str (uid c), ev_summary = get_str (summary c),
               ev_start = start_dt, ev_end = end_dt, calendar_url = cal_url,
               ev_description = str_or_none (description c),
               ev_location = str_or_none (location c)\<rparr>))))"

text \<open>
  \<open>for component in ical.walk()\<close> of \<open>list_events\<close>: \<open>result\<close> is appended to in place,
  so what was appended before an exception stays. The second component is the exception
  that ended the loop, if any.
\<close>

fun walk_events :: "string \<Rightarrow> component list \<Rightarrow> EventInfo list \<Rightarrow> EventInfo list \<times> error option" where
  "walk_events cal_url [] result = (result, None)"
| "walk_events cal_url (c # cs) result =
     (if comp_name c = ''VEVENT''
      then (case event_info cal_url c of
              Inl e \<Rightarrow> (result, Some e)
            | Inr ev \<Rightarrow> walk_events cal_url cs (result @ [ev]))
      else walk_events cal_url cs result)"

text \<open>\<open>for event in events\<close> of \<open>list_events\<close>, with its \<open>try\<close>/\<open>except\<close>/\<open>continue\<close>.\<close>

fun collect_events :: "platform \<Rightarrow> string \<Rightarrow> CalendarObject list \<Rightarrow> EventInfo list \<Rightarrow> log_record list
    \<Rightarrow> EventInfo list \<times> log_record list" where
  "collect_events P cal_url [] result log = (result, log)"
| "collect_events P cal_url (event # events) result log =
     (case from_ical P (data event) of
        Inl e \<Rightarrow> collect_events P cal_url events result (log @ [LogWarning ''Failed to parse event'' e])
      | Inr comps \<Rightarrow>
          (case walk_events cal_url comps result of
             (result', None) \<Rightarrow> collect_events P cal_url events result' log
           | (result', Some e) \<Rightarrow>
               collect_events P cal_url events result' (log @ [LogWarning ''Failed to parse event'' e])))"

text \<open>The \<open>try\<close> block of \<open>list_events\<close>, entered with the calendar found.\<close>

definition list_events_try :: "platform \<Rightarrow> Calendar \<Rightarrow> string \<Rightarrow> datetime \<Rightarrow> datetime
    \<Rightarrow> log_record list \<Rightarrow> (error + EventInfo list) \<times> log_record list" where
  "list_events_try P cal cal_url start end_dt log0 =
     (case date_search P cal start end_dt of
        Inl e \<Rightarrow> (Inl e, log0 @ [LogError ''Failed to list events'' e])
      | Inr events \<Rightarrow>
          (let (result, log) = collect_events P cal_url events [] log0
           in (Inr result, log)))"

definition list_events :: "platform \<Rightarrow> CalDAVAccount \<Rightarrow> string \<Rightarrow> datetime \<Rightarrow> datetime
    \<Rightarrow> (error + EventInfo list) \<times> log_record list" where
  "list_events P self cal_url start end_dt =
     (case get_calendar_by_url P self cal_url of
        (None, log0) \<Rightarrow> (Inl (ValueError (''Calendar not found: '' @ cal_url)), log0)
      | (Some cal, log0) \<Rightarrow> list_events_try P cal cal_url start end_dt log0)"

text \<open>
  \<open>create_event\<close>. The fresh UID (\<open>uuid.uuid4()\<close>) and the time stamp
  (\<open>datetime.now()\<close>) are inputs of the model. First its \<open>try\<close> block.
\<close>

definition create_event_try :: "platform \<Rightarrow> Calendar \<Rightarrow> string \<Rightarrow> string \<Rightarrow> datetime \<Rightarrow> datetime
    \<Rightarrow> string option \<Rightarrow> string option \<Rightarrow> string \<Rightarrow> datetime \<Rightarrow> log_record list
    \<Rightarrow> (error + string) \<times> log_record list" where
  "create_event_try P cal cal_url summ start end_dt descr loc new_uid now log0 =
     (let event = \<lparr>ne_uid = new_uid, ne_summary = summ, ne_dtstart = start, ne_dtend = end_dt,
                   ne_description = str_or_none descr, ne_location = str_or_none loc,
                   ne_dtstamp = now\<rparr>
      in case save_event P cal event of
           Some e \<Rightarrow> (Inl e, log0 @ [LogError ''Failed to create event'' e])
         | None \<Rightarrow>
             (Inr new_uid,
              log0 @ [LogInfo (''Created event '' @ new_uid @ '' in calendar '' @ cal_url)]))"

definition create_event :: "platform \<Rightarrow> CalDAVAccount \<Rightarrow> string \<Rightarrow> string \<Rightarrow> datetime \<Rightarrow> datetime
    \<Rightarrow> string option \<Rightarrow> string option \<Rightarrow> string \<Rightarrow> datetime \<Rightarrow> (error + string) \<times> log_record list" where
  "create_event P self cal_url summ start end_dt descr loc new_uid now =
     (case get_calendar_by_url P self cal_url of
        (None, log0) \<Rightarrow> (Inl (ValueError (''Calendar not found: '' @ cal_url)), log0)
      | (Some cal, log0) \<Rightarrow>
          create_event_try P cal cal_url summ start end_dt descr loc new_uid now log0)"

text \<open>
  \<open>for component in ical.walk()\<close> of \<open>delete_event\<close>: is there a \<open>VEVENT\<close> whose UID
  is the requested one?
\<close>

fun walk_match :: "string \<Rightarrow> component list \<Rightarrow> bool" where
  "walk_match target [] = False"
| "walk_match target (c # cs) =
     (if comp_name c = ''VEVENT'' \<and> get_str (uid c) = target then True
      else walk_match target cs)"

text \<open>
  \<open>for event in events\<close> of \<open>delete_event\<close>. \<open>event.delete()\<close> is inside the inner
  \<open>try\<close>: when it raises, the warning is logged and the scan goes on. The result is the
  object that was deleted, if any.
\<close>

fun delete_scan :: "platform \<Rightarrow> string \<Rightarrow> string \<Rightarrow> CalendarObject list \<Rightarrow> log_record list
    \<Rightarrow> CalendarObject option \<times> log_record list" where
  "delete_scan P cal_url target [] log = (None, log)"
| "delete_scan P cal_url target (event # events) log =
     (case from_ical P (data event) of
        Inl e \<Rightarrow>
          delete_scan P cal_url target events
            (log @ [LogWarning ''Failed to parse event during deletion'' e])
      | Inr comps \<Rightarrow>
          if walk_match target comps
          then (case event_delete P event of
                  None \<Rightarrow>
                    (Some event,
                     log @ [LogInfo (''Deleted event '' @ target @ '' from calendar '' @ cal_url)])
                | Some e \<Rightarrow>
                    delete_scan P cal_url target events
                      (log @ [LogWarning ''Failed to parse event during deletion'' e]))
          else delete_scan P cal_url target events log)"

text \<open>
  \<open>delete_event\<close>: the result, the object deleted on the server (if any) and the log.
  First its \<open>try\<close> block.
\<close>

definition delete_event_try :: "platform \<Rightarrow> Calendar \<Rightarrow> string \<Rightarrow> string \<Rightarrow> log_record list
    \<Rightarrow> (error + unit) \<times> CalendarObject option \<times> log_record list" where
  "delete_event_try P cal cal_url target log0 =
     (case calendar_events P cal of
        Inl e \<Rightarrow> (Inl e, None, log0 @ [LogError ''Failed to delete event'' e])
      | Inr events \<Rightarrow>
          (case delete_scan P cal_url target events log0 of
             (Some ev, log) \<Rightarrow> (Inr (), Some ev, log)
           | (None, log) \<Rightarrow>
               (let e = ValueError (''Event with UID '' @ target @ '' not found in calendar'')
                in (Inl e, None, log @ [LogError ''Failed to delete event'' e]))))"

definition delete_event :: "platform \<Rightarrow> CalDAVAccount \<Rightarrow> string \<Rightarrow> string
    \<Rightarrow> (error + unit) \<times> CalendarObject option \<times> log_record list" where
  "delete_event P self cal_url target =
     (case get_calendar_by_url P self cal_url of
        (None, log0) \<Rightarrow> (Inl (ValueError (''Calendar not found: '' @ cal_url)), None, log0)
      | (Some cal, log0) \<Rightarrow> delete_event_try P cal cal_url target log0)"

section \<open>Tool handlers (tools/events.py)\<close>

text \<open>The inner loop of \<open>find_account_for_calendar\<close> over \<open>account.calendars\<close>.\<close>

fun has_calendar :: "(string \<Rightarrow> string option) \<Rightarrow> string \<Rightarrow> CalendarInfo list \<Rightarrow> error + bool" where
  "has_calendar nc normalized_url [] = Inr False"
| "has_calendar nc normalized_url (cal # rest) =
     (case normalize_url nc (url cal) of
        Inl e \<Rightarrow> Inl e
      | Inr n \<Rightarrow> if n = normalized_url then Inr True else has_calendar nc normalized_url rest)"

text \<open>The outer loop over \<open>accounts\<close>.\<close>

fun scan_accounts :: "(string \<Rightarrow> string option) \<Rightarrow> string \<Rightarrow> CalDAVAccount list \<Rightarrow> error + CalDAVAccount option" where
  "scan_accounts nc normalized_url [] = Inr None"
| "scan_accounts nc normalized_url (account # rest) =
     (case has_calendar nc normalized_url (calendars account) of
        Inl e \<Rightarrow> Inl e
      | Inr True \<Rightarrow> Inr (Some account)
      | Inr False \<Rightarrow> scan_accounts nc normalized_url rest)"

definition find_account_for_calendar :: "(string \<Rightarrow> string option) \<Rightarrow> CalDAVAccount list \<Rightarrow> string
    \<Rightarrow> error + CalDAVAccount option" where
  "find_account_for_calendar nc accounts cal_url =
     (case normalize_url nc cal_url of
        Inl e \<Rightarrow> Inl e
      | Inr normalized_url \<Rightarrow> scan_accounts nc normalized_url accounts)"

text \<open>\<open>s.replace("Z", "+00:00")\<close>: every occurrence is replaced.\<close>

fun replace_Z :: "string \<Rightarrow> string" where
  "replace_Z [] = []"
| "replace_Z (c # cs) = (if c = CHR ''Z'' then ''+00:00'' @ replace_Z cs else c # replace_Z cs)"

text \<open>\<open>datetime.fromisoformat(s.replace("Z", "+00:00"))\<close>\<close>

definition parse_date :: "platform \<Rightarrow> string \<Rightarrow> error + datetime" where
  "parse_date P s = fromisoformat P (replace_Z s)"

text \<open>\<open>sep.join(xs)\<close>\<close>

fun join :: "string \<Rightarrow> string list \<Rightarrow> string" where
  "join sep [] = []"
| "join sep [x] = x"
| "join sep (x # y # ys) = x @ sep @ join sep (y # ys)"

text \<open>\<open>c.url for a in accounts for c in a.calendars\<close>\<close>

definition available_urls :: "CalDAVAccount list \<Rightarrow> string list" where
  "available_urls accounts = concat (map (\<lambda>a. map url (calendars a)) accounts)"

text \<open>
  The block \<open># Parse dates\<close> of \<open>list_events_tool\<close>: the range handed to
  \<open>account.list_events\<close>. \<open>if end\<close> is false for \<open>None\<close> and for the empty string.
\<close>

definition list_events_range :: "platform \<Rightarrow> string \<Rightarrow> string option \<Rightarrow> error + (datetime \<times> datetime)" where
  "list_events_range P start end_arg =
     (case parse_date P start of
        Inl e \<Rightarrow> Inl e
      | Inr start_dt \<Rightarrow>
          (case (case end_arg of
                   None \<Rightarrow> add_days start_dt 30
                 | Some e \<Rightarrow> if e = [] then add_days start_dt 30 else parse_date P e) of
             Inl e \<Rightarrow> Inl e
           | Inr end_dt \<Rightarrow> Inr (start_dt, end_dt)))"

record event_dict =
  d_uid :: string
  d_summary :: string
  d_start :: string
  d_end :: string
  d_description :: "string option"
  d_location :: "string option"

definition to_dict :: "platform \<Rightarrow> EventInfo \<Rightarrow> event_dict" where
  "to_dict P event =
     \<lparr>d_uid = ev_uid event, d_summary = ev_summary event,
      d_start = isoformat P (ev_start event), d_end = isoformat P (ev_end event),
      d_description = ev_description event, d_location = ev_location event\<rparr>"

definition list_events_tool :: "platform \<Rightarrow> CalDAVAccount list \<Rightarrow> string \<Rightarrow> string \<Rightarrow> string option
    \<Rightarrow> (error + event_dict list) \<times> log_record list" where
  "list_events_tool P accounts cal_url start end_arg =
     (case find_account_for_calendar (netloc_check P) accounts cal_url of
        Inl e \<Rightarrow> (Inl e, [])
      | Inr None \<Rightarrow>
          (Inl (ValueError (''No account found for calendar URL: '' @ cal_url @ ''. ''
                  @ ''Available URLs: '' @ join '', '' (available_urls accounts))), [])
      | Inr (Some account) \<Rightarrow>
          (case list_events_range P start end_arg of
             Inl e \<Rightarrow> (Inl e, [])
           | Inr (start_dt, end_dt) \<Rightarrow>
               (case list_events P account cal_url start_dt end_dt of
                  (Inl e, log) \<Rightarrow> (Inl e, log)
                | (Inr events, log) \<Rightarrow> (Inr (map (to_dict P) events), log))))"

definition create_event_tool :: "platform \<Rightarrow> CalDAVAccount list \<Rightarrow> string \<Rightarrow> string \<Rightarrow> string \<Rightarrow> string
    \<Rightarrow> string option \<Rightarrow> string option \<Rightarrow> string \<Rightarrow> datetime \<Rightarrow> (error + string) \<times> log_record list" where
  "create_event_tool P accounts cal_url summ start end_arg descr loc new_uid now =
     (case find_account_for_calendar (netloc_check P) accounts cal_url of
        Inl e \<Rightarrow> (Inl e, [])
      | Inr None \<Rightarrow> (Inl (ValueError (''No account found for calendar URL: '' @ cal_url)), [])
      | Inr (Some account) \<Rightarrow>
          (case parse_date P start of
             Inl e \<Rightarrow> (Inl e, [])
           | Inr start_dt \<Rightarrow>
               (case parse_date P end_arg of
                  Inl e \<Rightarrow> (Inl e, [])
                | Inr end_dt \<Rightarrow>
                    create_event P account cal_url summ start_dt end_dt descr loc new_uid now)))"

definition delete_event_tool :: "platform \<Rightarrow> CalDAVAccount list \<Rightarrow> string \<Rightarrow> string
    \<Rightarrow> (error + string) \<times> CalendarObject option \<times> log_record list" where
  "delete_event_tool P accounts cal_url target =
     (case find_account_for_calendar (netloc_check P) accounts cal_url of
        Inl e \<Rightarrow> (Inl e, None, [])
      | Inr None \<Rightarrow> (Inl (ValueError (''No account found for calendar URL: '' @ cal_url)), None, [])
      | Inr (Some account) \<Rightarrow>
          (case delete_event P account cal_url target of
             (Inl e, eff) \<Rightarrow> (Inl e, eff)
           | (Inr u, eff) \<Rightarrow> (Inr (''Event '' @ target @ '' deleted successfully''), eff)))"

section \<open>The transformation the interface description gives for date arguments\<close>

text \<open>
  The interface description says that a trailing \<open>Z\<close> is shorthand for \<open>+00:00\<close> and
  that every other string goes to the platform parser as it is. \<open>spec_trailing_Z\<close>
  follows these words; it is compared with \<open>replace_Z\<close>, which follows the code.
\<close>

definition spec_trailing_Z :: "string \<Rightarrow> string" where
  "spec_trailing_Z s =
     (if s \<noteq> [] \<and> last s = CHR ''Z'' then butlast s @ ''+00:00'' else s)"

section \<open>What the description says about entries\<close>

text \<open>The \<open>VEVENT\<close> components of a parsed entry.\<close>

definition vevents :: "component list \<Rightarrow> component list" where
  "vevents comps = filter (\<lambda>c. comp_name c = ''VEVENT'') comps"

text \<open>
  The description of \<open>list_events\<close> says that an entry that fails to parse is skipped
  and that the valid entries give their records. \<open>spec_entry_events\<close> follows these
  words: an entry contributes the records of all its events when its data parses and
  every event converts, and nothing otherwise. \<open>spec_list_events\<close> is the listing so
  described; it is compared with \<open>list_events\<close>, which follows the code.
\<close>

definition entry_valid :: "platform \<Rightarrow> string \<Rightarrow> CalendarObject \<Rightarrow> bool" where
  "entry_valid P cal_url x =
     (case from_ical P (data x) of
        Inl e \<Rightarrow> False
      | Inr comps \<Rightarrow> list_all (\<lambda>c. \<not> isl (event_info cal_url c)) (vevents comps))"

definition spec_entry_events :: "platform \<Rightarrow> string \<Rightarrow> CalendarObject \<Rightarrow> EventInfo list" where
  "spec_entry_events P cal_url x =
     (case from_ical P (data x) of
        Inl e \<Rightarrow> []
      | Inr comps \<Rightarrow>
          if entry_valid P cal_url x
          then map (\<lambda>c. projr (event_info cal_url c)) (vevents comps)
          else [])"

definition spec_list_events :: "platform \<Rightarrow> string \<Rightarrow> CalendarObject list \<Rightarrow> EventInfo list" where
  "spec_list_events P cal_url entries = concat (map (spec_entry_events P cal_url) entries)"

text \<open>
  An entry that fails before any of its events has been converted: its data does not
  parse, or its first \<open>VEVENT\<close> does not convert.
\<close>

definition entry_fails_first :: "platform \<Rightarrow> string \<Rightarrow> CalendarObject \<Rightarrow> bool" where
  "entry_fails_first P cal_url x =
     (case from_ical P (data x) of
        Inl e \<Rightarrow> True
      | Inr comps \<Rightarrow>
          (case vevents comps of
             [] \<Rightarrow> False
           | c # cs \<Rightarrow> isl (event_info cal_url c)))"

text \<open>
  The description of \<open>delete_event\<close> speaks of an entry that contains a \<open>VEVENT\<close>
  whose UID is the requested one.
\<close>

definition contains_uid :: "platform \<Rightarrow> string \<Rightarrow> CalendarObject \<Rightarrow> bool" where
  "contains_uid P target x =
     (case from_ical P (data x) of
        Inl e \<Rightarrow> False
      | Inr comps \<Rightarrow> list_ex (\<lambda>c. comp_name c = ''VEVENT'' \<and> get_str (uid c) = target) comps)"

section \<open>Example data\<close>

text \<open>
  Two accounts whose calendars \<open>Work\<close> have URLs that normalize to the same path, a
  small calendar, and a platform that serves it. They are the concrete inputs on which
  the theorems below are instantiated.
\<close>

definition example_account_one :: CalDAVAccount where
  "example_account_one =
     \<lparr>name = ''One'', base_url = ''https://one.example'', username = ''ann'',
      password = ''secret'', client = Some (DAVClient ''https://one.example'' ''ann'' ''secret''),
      principal = Some Principal,
      calendars = [\<lparr>ci_name = ''Work'', url = ''https://one.example/cal/work/'',
                    account_name = ''One''\<rparr>]\<rparr>"

definition example_account_two :: CalDAVAccount where
  "example_account_two =
     \<lparr>name = ''Two'', base_url = ''https://two.example'', username = ''bob'',
      password = ''hidden'', client = Some (DAVClient ''https://two.example'' ''bob'' ''hidden''),
      principal = Some Principal,
      calendars = [\<lparr>ci_name = ''Home'', url = ''/cal/home/'', account_name = ''Two''\<rparr>,
                   \<lparr>ci_name = ''Work'', url = ''/cal/work/'', account_name = ''Two''\<rparr>]\<rparr>"

definition example_start :: datetime where
  "example_start =
     \<lparr>ordinal = 739582, hour = 9, minute = 0, second = 0, microsecond = 0, tz = None\<rparr>"

definition example_end :: datetime where
  "example_end =
     \<lparr>ordinal = 739582, hour = 9, minute = 15, second = 0, microsecond = 0, tz = None\<rparr>"

text \<open>A timed event, an all-day event, and a \<open>VEVENT\<close> without \<open>DTEND\<close>.\<close>

definition example_standup :: component where
  "example_standup =
     \<lparr>comp_name = ''VEVENT'', uid = Some ''uid-standup'', summary = Some ''Standup'',
      dtstart = Some (DateTimeValue example_start), dtend = Some (DateTimeValue example_end),
      description = None, location = Some ''Room 1''\<rparr>"

definition example_holiday :: component where
  "example_holiday =
     \<lparr>comp_name = ''VEVENT'', uid = Some ''uid-holiday'', summary = Some ''Holiday'',
      dtstart = Some (DateValue 739582), dtend = Some (DateValue 739583),
      description = Some '''', location = None\<rparr>"

definition example_open_ended :: component where
  "example_open_ended =
     \<lparr>comp_name = ''VEVENT'', uid = Some ''uid-open'', summary = Some ''Open'',
      dtstart = Some (DateTimeValue example_start), dtend = None,
      description = None, location = None\<rparr>"

definition example_vcalendar :: component where
  "example_vcalendar =
     \<lparr>comp_name = ''VCALENDAR'', uid = None, summary = None, dtstart = None, dtend = None,
      description = None, location = None\<rparr>"

text \<open>
  The raw data of the example objects and what the iCalendar parser makes of them:
  \<open>garbage\<close> does not parse, \<open>mixed\<close> holds a complete event followed by one without
  \<open>DTEND\<close>.
\<close>

definition example_from_ical :: "string \<Rightarrow> error + component list" where
  "example_from_ical d =
     (if d = ''standup'' then Inr [example_vcalendar, example_standup]
      else if d = ''holiday'' then Inr [example_vcalendar, example_holiday]
      else if d = ''mixed'' then Inr [example_vcalendar, example_standup, example_open_ended]
      else Inl ParseError)"

definition example_objects :: "CalendarObject list" where
  "example_objects =
     [\<lparr>href = ''/cal/work/0.ics'', data = ''garbage''\<rparr>,
      \<lparr>href = ''/cal/work/1.ics'', data = ''holiday''\<rparr>,
      \<lparr>href = ''/cal/work/2.ics'', data = ''standup''\<rparr>,
      \<lparr>href = ''/cal/work/3.ics'', data = ''standup''\<rparr>]"

definition example_fromisoformat :: "string \<Rightarrow> error + datetime" where
  "example_fromisoformat s =
     (if s = ''2025-11-27T09:00:00'' then Inr example_start
      else if s = ''2025-11-27T09:15:00'' then Inr example_end
      else if s = ''2025-11-27T09:00:00+00:00'' then Inr (example_start\<lparr>tz := Some (FixedOffset 0)\<rparr>)
      else Inl (ValueError ''Invalid isoformat string''))"

definition example_platform :: platform where
  "example_platform =
     \<lparr>netloc_check = (\<lambda>n. None),
      client_calendar = (\<lambda>cl u. Inr (Calendar u)),
      date_search = (\<lambda>cal s e. Inr example_objects),
      calendar_events = (\<lambda>cal. Inr example_objects),
      from_ical = example_from_ical,
      event_delete = (\<lambda>ev. None),
      save_event = (\<lambda>cal ev. None),
      fromisoformat = example_fromisoformat,
      isoformat = (\<lambda>d. ''(datetime)'')\<rparr>"

definition example_mixed_platform :: platform where
  "example_mixed_platform =
     example_platform\<lparr>date_search :=
       (\<lambda>cal s e. Inr [\<lparr>href = ''/cal/work/4.ics'', data = ''mixed''\<rparr>])\<rparr>"

text \<open>The records \<open>list_events\<close> makes of the example events of calendar \<open>/cal/work/\<close>.\<close>

definition example_standup_info :: EventInfo where
  "example_standup_info =
     \<lparr>ev_uid = ''uid-standup'', ev_summary = ''Standup'', ev_start = example_start,
      ev_end = example_end, calendar_url = ''/cal/work/'', ev_description = None,
      ev_location = Some ''Room 1''\<rparr>"

definition example_holiday_info :: EventInfo where
  "example_holiday_info =
     \<lparr>ev_uid = ''uid-holiday'', ev_summary = ''Holiday'',
      ev_start = \<lparr>ordinal = 739582, hour = 0, minute = 0, second = 0, microsecond = 0, tz = None\<rparr>,
      ev_end = \<lparr>ordinal = 739583, hour = 0, minute = 0, second = 0, microsecond = 0, tz = None\<rparr>,
      calendar_url = ''/cal/work/'', ev_description = None, ev_location = None\<rparr>"

section \<open>Properties of the URL normalizer\<close>

lemma starts_with_iff: "starts_with s p \<longleftrightarrow> (\<exists>r. s = p @ r)"
  by (induction s p rule: starts_with.induct) auto

lemma split_scheme_http: "split_scheme (''http://'' @ r) = (''http'', ''//'' @ r)"
  by (simp add: split_scheme_def is_ascii_alpha_def scheme_chars_def lower_char_def)

lemma split_scheme_https: "split_scheme (''https://'' @ r) = (''https'', ''//'' @ r)"
  by (simp add: split_scheme_def is_ascii_alpha_def scheme_chars_def lower_char_def)

text \<open>
  What \<open>urlsplit\<close> does on a URL with the prefix the normalizer tests for: the prefix
  survives the stripping steps, the scheme is found, and the network location is split
  off the rest.
\<close>

lemma urlsplit_http:
  assumes "sch = ''http'' \<or> sch = ''https''"
  shows "urlsplit nc (sch @ ''://'' @ r) =
     (let r' = filter (\<lambda>c. c \<notin> set UNSAFE_URL_BYTES_TO_REMOVE) r;
          netloc = takeWhile (\<lambda>c. \<not> netloc_delim c) r';
          rest = dropWhile (\<lambda>c. \<not> netloc_delim c) r'
      in if (CHR ''['' \<in> set netloc \<and> CHR '']'' \<notin> set netloc)
            \<or> (CHR '']'' \<in> set netloc \<and> CHR ''['' \<notin> set netloc)
         then Inl (ValueError ''Invalid IPv6 URL'')
         else (case nc netloc of
                 Some msg \<Rightarrow> Inl (ValueError msg)
               | None \<Rightarrow>
                   Inr (sch, takeWhile (\<lambda>x. x \<noteq> CHR ''?'') (takeWhile (\<lambda>x. x \<noteq> CHR ''#'') rest))))"
proof -
  let ?r' = "filter (\<lambda>c. c \<notin> set UNSAFE_URL_BYTES_TO_REMOVE) r"
  have a: "dropWhile WHATWG_C0_CONTROL_OR_SPACE (sch @ ''://'' @ r) = sch @ ''://'' @ r"
    using assms by (auto simp: WHATWG_C0_CONTROL_OR_SPACE_def)
  have b: "filter (\<lambda>c. c \<notin> set UNSAFE_URL_BYTES_TO_REMOVE) (sch @ ''://'' @ r) = sch @ ''://'' @ ?r'"
    using assms by (auto simp: UNSAFE_URL_BYTES_TO_REMOVE_def)
  have c: "split_scheme (sch @ ''://'' @ ?r') = (sch, ''//'' @ ?r')"
    using assms split_scheme_http[of ?r'] split_scheme_https[of ?r'] by auto
  show ?thesis
    unfolding urlsplit_def Let_def a b c
    by (simp add: splitnetloc_def split: option.split)
qed

lemma cut_query_head:
  assumes "rest = [] \<or> netloc_delim (hd rest)"
  shows "takeWhile (\<lambda>x. x \<noteq> CHR ''?'') (takeWhile (\<lambda>x. x \<noteq> CHR ''#'') rest) = []
         \<or> hd (takeWhile (\<lambda>x. x \<noteq> CHR ''?'') (takeWhile (\<lambda>x. x \<noteq> CHR ''#'') rest)) = CHR ''/''"
  using assms by (cases rest) (auto simp: netloc_delim_def)

lemma dropWhile_delim_head:
  "dropWhile (\<lambda>c. \<not> netloc_delim c) s = []
   \<or> netloc_delim (hd (dropWhile (\<lambda>c. \<not> netloc_delim c) s))"
  using hd_dropWhile[of "\<lambda>c. \<not> netloc_delim c" s] by auto

lemma splitparams_head:
  assumes "hd p = CHR ''/''" "p \<noteq> []"
  shows "splitparams p \<noteq> [] \<and> hd (splitparams p) = CHR ''/''"
proof -
  obtain q where p: "p = CHR ''/'' # q" using assms by (cases p) auto
  define k where "k = length (takeWhile (\<lambda>x. x \<noteq> CHR ''/'') (rev p))"
  have "k \<le> length q"
    unfolding k_def p using length_takeWhile_le[of "\<lambda>x. x \<noteq> CHR ''/''" "rev q"]
    by (auto simp: takeWhile_append)
  then have n: "length p - k = Suc (length q - k)"
    by (simp add: p Suc_diff_le)
  have sl: "CHR ''/'' \<in> set p" by (simp add: p)
  have sp: "splitparams p = take (length p - k) p
              @ takeWhile (\<lambda>x. x \<noteq> CHR '';'') (rev (takeWhile (\<lambda>x. x \<noteq> CHR ''/'') (rev p)))"
    by (simp add: splitparams_def Let_def sl k_def)
  have "take (Suc (length q - k)) p = CHR ''/'' # take (length q - k) q" by (simp add: p)
  then show ?thesis by (simp add: sp n)
qed

text \<open>The path of an http(s) URL is empty or starts with a slash.\<close>

lemma urlparse_path_http_head:
  assumes "sch = ''http'' \<or> sch = ''https''" "urlparse_path nc (sch @ ''://'' @ r) = Inr p"
  shows "p = [] \<or> hd p = CHR ''/''"
proof -
  let ?rest = "dropWhile (\<lambda>c. \<not> netloc_delim c) (filter (\<lambda>c. c \<notin> set UNSAFE_URL_BYTES_TO_REMOVE) r)"
  let ?path = "takeWhile (\<lambda>x. x \<noteq> CHR ''?'') (takeWhile (\<lambda>x. x \<noteq> CHR ''#'') ?rest)"
  have q: "?path = [] \<or> hd ?path = CHR ''/''"
    by (rule cut_query_head) (rule dropWhile_delim_head)
  from assms(2) have "p = ?path \<or> p = splitparams ?path"
    unfolding urlparse_path_def urlsplit_http[OF assms(1)] Let_def
    by (auto split: if_splits option.splits)
  with q show ?thesis
    using splitparams_head[of ?path] by (cases "?path = []") (auto simp: splitparams_def)
qed

lemma http_prefix_cases:
  assumes "starts_with u ''http://'' \<or> starts_with u ''https://''"
  shows "\<exists>sch r. u = sch @ ''://'' @ r \<and> (sch = ''http'' \<or> sch = ''https'')"
  using assms
proof
  assume "starts_with u ''http://''"
  then obtain r where "u = ''http'' @ ''://'' @ r" by (auto simp: starts_with_iff)
  then show ?thesis by blast
next
  assume "starts_with u ''https://''"
  then obtain r where "u = ''https'' @ ''://'' @ r" by (auto simp: starts_with_iff)
  then show ?thesis by blast
qed

lemma slash_head_no_prefix:
  assumes "v = [] \<or> hd v = CHR ''/''"
  shows "\<not> starts_with v ''http://'' \<and> \<not> starts_with v ''https://''"
  using assms by (auto simp: starts_with_iff)

lemma normalize_url_fixed:
  assumes "normalize_url nc u = Inr v"
  shows "normalize_url nc v = Inr v"
proof (cases "starts_with u ''http://'' \<or> starts_with u ''https://''")
  case False
  with assms show ?thesis by (auto simp: normalize_url_def)
next
  case True
  then obtain sch r where u: "u = sch @ ''://'' @ r" and sch: "sch = ''http'' \<or> sch = ''https''"
    using http_prefix_cases by blast
  from assms True have "urlparse_path nc u = Inr v" by (simp add: normalize_url_def)
  then have "v = [] \<or> hd v = CHR ''/''"
    using urlparse_path_http_head[OF sch] u by blast
  then show ?thesis using slash_head_no_prefix by (simp add: normalize_url_def)
qed

text \<open>
  An http(s) URL made of a host and a plain path: the normalizer returns the path as it
  is written.
\<close>

lemma normalize_url_plain:
  assumes sch: "sch = ''http'' \<or> sch = ''https''"
    and host: "\<forall>c\<in>set host. \<not> netloc_delim c \<and> c \<noteq> CHR ''['' \<and> c \<noteq> CHR '']''
                 \<and> c \<notin> set UNSAFE_URL_BYTES_TO_REMOVE"
    and chk: "nc host = None"
    and p0: "p = [] \<or> hd p = CHR ''/''"
    and p: "\<forall>c\<in>set p. c \<noteq> CHR ''?'' \<and> c \<noteq> CHR ''#'' \<and> c \<noteq> CHR '';''
              \<and> c \<notin> set UNSAFE_URL_BYTES_TO_REMOVE"
  shows "normalize_url nc (sch @ ''://'' @ host @ p) = Inr p"
proof -
  let ?f = "filter (\<lambda>c. c \<notin> set UNSAFE_URL_BYTES_TO_REMOVE)"
  have f: "?f (host @ p) = host @ p"
    using host p by (auto simp: filter_id_conv)
  have tw: "takeWhile (\<lambda>c. \<not> netloc_delim c) (host @ p) = host"
    using host p0 by (cases p) (auto simp: takeWhile_append netloc_delim_def)
  have dw: "dropWhile (\<lambda>c. \<not> netloc_delim c) (host @ p) = p"
    using host p0 by (cases p) (auto simp: dropWhile_append netloc_delim_def)
  have br: "CHR ''['' \<notin> set host" "CHR '']'' \<notin> set host"
    using host by auto
  have c1: "takeWhile (\<lambda>x. x \<noteq> CHR ''#'') p = p" using p by auto
  have c2: "takeWhile (\<lambda>x. x \<noteq> CHR ''?'') p = p" using p by auto
  have cut: "takeWhile (\<lambda>x. x \<noteq> CHR ''?'') (takeWhile (\<lambda>x. x \<noteq> CHR ''#'') p) = p"
    by (simp only: c1 c2)
  have semi: "CHR '';'' \<notin> set p" using p by auto
  have "urlsplit nc (sch @ ''://'' @ host @ p) = Inr (sch, p)"
    unfolding urlsplit_http[OF sch] Let_def f tw dw cut
    using br chk by simp
  then have "urlparse_path nc (sch @ ''://'' @ host @ p) = Inr p"
    using semi by (simp add: urlparse_path_def)
  moreover have "starts_with (sch @ ''://'' @ host @ p) ''http://''
                 \<or> starts_with (sch @ ''://'' @ host @ p) ''https://''"
    using sch by (auto simp: starts_with_iff)
  ultimately show ?thesis by (simp add: normalize_url_def)
qed
text \<open>
  Claim C2, as amended. The normalizer tests the literal prefixes \<open>http://\<close> and
  \<open>https://\<close>. For such a URL made of a host (no \<open>/\<close>, \<open>?\<close>, \<open>#\<close>, brackets, tab, CR or LF;
  accepted by the parser's check of the network location) followed by a path that is
  empty or starts with a slash and has no \<open>?\<close>, \<open>#\<close>, \<open>;\<close>, tab, CR or LF, it returns
  exactly that path: the leading slash and any trailing slash are kept as given. An input
  without one of the two prefixes is returned unchanged. Hence the absolute URL and its
  path alone normalize to the same string.
\<close>

theorem normalize_url_path:
  assumes "sch = ''http'' \<or> sch = ''https''"
    and "\<forall>c\<in>set host. \<not> netloc_delim c \<and> c \<noteq> CHR ''['' \<and> c \<noteq> CHR '']''
                 \<and> c \<notin> set UNSAFE_URL_BYTES_TO_REMOVE"
    and "nc host = None"
    and "p = [] \<or> hd p = CHR ''/''"
    and "\<forall>c\<in>set p. c \<noteq> CHR ''?'' \<and> c \<noteq> CHR ''#'' \<and> c \<noteq> CHR '';''
              \<and> c \<notin> set UNSAFE_URL_BYTES_TO_REMOVE"
    and "\<not> starts_with u ''http://''" and "\<not> starts_with u ''https://''"
  shows "normalize_url nc (sch @ ''://'' @ host @ p) = Inr p
         \<and> normalize_url nc u = Inr u
         \<and> normalize_url nc (sch @ ''://'' @ host @ p) = normalize_url nc p"
proof -
  have abs: "normalize_url nc (sch @ ''://'' @ host @ p) = Inr p"
    using assms(1-5) by (rule normalize_url_plain)
  have rel: "normalize_url nc u = Inr u"
    using assms(6,7) by (simp add: normalize_url_def)
  have "normalize_url nc p = Inr p"
    using slash_head_no_prefix[OF assms(4)] by (simp add: normalize_url_def)
  with abs rel show ?thesis by simp
qed

theorem normalize_url_path_witness:
  "normalize_url (\<lambda>n. None) ''https://host:8443/cal/work/'' = Inr ''/cal/work/''
   \<and> normalize_url (\<lambda>n. None) ''cal/work/'' = Inr ''cal/work/''
   \<and> normalize_url (\<lambda>n. None) ''https://host:8443/cal/work/'' = normalize_url (\<lambda>n. None) ''/cal/work/''"
  using normalize_url_path [of "''https''" "''host:8443''" "\<lambda>n. None" "''/cal/work/''" "''cal/work/''"]
  by (auto simp add: netloc_delim_def UNSAFE_URL_BYTES_TO_REMOVE_def)

text \<open>
  Claim C2 as stated fails: an http URL whose network location has an unbalanced bracket
  is rejected by the URL parser, so the normalizer raises instead of returning a path.
\<close>

theorem normalize_url_raises:
  "normalize_url (\<lambda>n. None) ''http://['' = Inl (ValueError ''Invalid IPv6 URL'')"
  by code_simp

text \<open>
  Claim C4: the normalizer is idempotent. Applying it to its own result gives that result
  again; where it raises, so does the composition, with the same error.
\<close>

theorem normalize_url_idempotent:
  "(case normalize_url nc u of Inl e \<Rightarrow> Inl e | Inr v \<Rightarrow> normalize_url nc v) = normalize_url nc u"
proof (cases "normalize_url nc u")
  case (Inl e)
  then show ?thesis by simp
next
  case (Inr v)
  then show ?thesis using normalize_url_fixed[of nc u v] by simp
qed

theorem normalize_url_idempotent_witness:
  "normalize_url (\<lambda>n. None) ''https://host/path/a;x?q#f'' = Inr ''/path/a''
   \<and> normalize_url (\<lambda>n. None) ''/path/a'' = Inr ''/path/a''"
proof -
  have a: "normalize_url (\<lambda>n. None) ''https://host/path/a;x?q#f'' = Inr ''/path/a''"
    by code_simp
  from normalize_url_idempotent [of "\<lambda>n. None" "''https://host/path/a;x?q#f''"]
  show ?thesis unfolding a by simp
qed
section \<open>Properties of the account resolver\<close>

lemma has_calendar_total:
  assumes "\<forall>c\<in>set cs. \<exists>m. normalize_url nc (url c) = Inr m"
  shows "has_calendar nc n cs = Inr (\<exists>c\<in>set cs. normalize_url nc (url c) = Inr n)"
  using assms by (induction cs) auto

lemma scan_accounts_find:
  assumes "\<forall>a\<in>set accounts. \<forall>c\<in>set (calendars a). \<exists>m. normalize_url nc (url c) = Inr m"
  shows "scan_accounts nc n accounts
         = Inr (List.find (\<lambda>a. \<exists>c\<in>set (calendars a). normalize_url nc (url c) = Inr n) accounts)"
  using assms
proof (induction accounts)
  case Nil
  then show ?case by simp
next
  case (Cons a accounts)
  then have "has_calendar nc n (calendars a)
             = Inr (\<exists>c\<in>set (calendars a). normalize_url nc (url c) = Inr n)"
    by (simp add: has_calendar_total)
  with Cons show ?case by simp
qed

lemma find_first:
  assumes "P a" and "\<forall>b\<in>set pre. \<not> P b"
  shows "List.find P (pre @ a # post) = Some a"
  using assms by (induction pre) auto

text \<open>
  Claim C1, as amended. When normalizing the input URL and the cached calendar URLs
  succeeds, the resolver returns the first account of the list that has a calendar whose
  normalized URL is the normalized input; it returns not-found exactly when no calendar
  of any account matches; and an account with a match that no earlier account has is the
  one returned, whatever follows it.
\<close>

theorem find_account_first_match:
  assumes "normalize_url nc u = Inr n"
    and "\<forall>a\<in>set accounts. \<forall>c\<in>set (calendars a). \<exists>m. normalize_url nc (url c) = Inr m"
  shows "find_account_for_calendar nc accounts u
           = Inr (List.find (\<lambda>a. \<exists>c\<in>set (calendars a). normalize_url nc (url c) = Inr n) accounts)
         \<and> (find_account_for_calendar nc accounts u = Inr None
              \<longleftrightarrow> (\<forall>a\<in>set accounts. \<forall>c\<in>set (calendars a). normalize_url nc (url c) \<noteq> Inr n))
         \<and> (\<forall>pre a post. accounts = pre @ a # post
                \<and> (\<exists>c\<in>set (calendars a). normalize_url nc (url c) = Inr n)
                \<and> (\<forall>b\<in>set pre. \<forall>c\<in>set (calendars b). normalize_url nc (url c) \<noteq> Inr n)
              \<longrightarrow> find_account_for_calendar nc accounts u = Inr (Some a))"
proof -
  let ?P = "\<lambda>a. \<exists>c\<in>set (calendars a). normalize_url nc (url c) = Inr n"
  have r: "find_account_for_calendar nc accounts u = Inr (List.find ?P accounts)"
    using assms by (simp add: find_account_for_calendar_def scan_accounts_find)
  have none: "List.find ?P accounts = None
              \<longleftrightarrow> (\<forall>a\<in>set accounts. \<forall>c\<in>set (calendars a). normalize_url nc (url c) \<noteq> Inr n)"
    by (auto simp: find_None_iff)
  have first: "List.find ?P (pre @ a # post) = Some a"
    if "?P a" "\<forall>b\<in>set pre. \<forall>c\<in>set (calendars b). normalize_url nc (url c) \<noteq> Inr n"
    for a and pre post :: "CalDAVAccount list"
    using that by (intro find_first) auto
  have c2: "find_account_for_calendar nc accounts u = Inr None
              \<longleftrightarrow> (\<forall>a\<in>set accounts. \<forall>c\<in>set (calendars a). normalize_url nc (url c) \<noteq> Inr n)"
    using none by (simp add: r)
  have c3: "\<forall>pre a post. accounts = pre @ a # post
                \<and> (\<exists>c\<in>set (calendars a). normalize_url nc (url c) = Inr n)
                \<and> (\<forall>b\<in>set pre. \<forall>c\<in>set (calendars b). normalize_url nc (url c) \<noteq> Inr n)
              \<longrightarrow> find_account_for_calendar nc accounts u = Inr (Some a)"
  proof (intro allI impI)
    fix pre a post
    assume h: "accounts = pre @ a # post
                \<and> (\<exists>c\<in>set (calendars a). normalize_url nc (url c) = Inr n)
                \<and> (\<forall>b\<in>set pre. \<forall>c\<in>set (calendars b). normalize_url nc (url c) \<noteq> Inr n)"
    then have f: "List.find ?P (pre @ a # post) = Some a" by (intro first) auto
    from h have acc: "accounts = pre @ a # post" by simp
    show "find_account_for_calendar nc accounts u = Inr (Some a)"
      using r f unfolding acc by simp
  qed
  from r c2 c3 show ?thesis by (intro conjI)
qed

lemma example_url_one:
  "normalize_url (\<lambda>n. None) ''https://one.example/cal/work/'' = Inr ''/cal/work/''"
  by code_simp

lemma example_url_home: "normalize_url (\<lambda>n. None) ''/cal/home/'' = Inr ''/cal/home/''"
  by code_simp

lemma example_url_work: "normalize_url (\<lambda>n. None) ''/cal/work/'' = Inr ''/cal/work/''"
  by code_simp

theorem find_account_first_match_witness:
  "find_account_for_calendar (\<lambda>n. None) [example_account_two, example_account_one, example_account_two]
     ''https://elsewhere.example/cal/work/'' = Inr (Some example_account_two)
   \<and> find_account_for_calendar (\<lambda>n. None) [example_account_one, example_account_two]
     ''/cal/work/'' = Inr (Some example_account_one)"
proof -
  have a: "normalize_url (\<lambda>n. None) ''https://elsewhere.example/cal/work/'' = Inr ''/cal/work/''"
    by code_simp
  have "find_account_for_calendar (\<lambda>n. None) [example_account_two, example_account_one, example_account_two]
     ''https://elsewhere.example/cal/work/'' = Inr (Some example_account_two)"
    using find_account_first_match [of "\<lambda>n. None" "''https://elsewhere.example/cal/work/''" "''/cal/work/''"
        "[example_account_two, example_account_one, example_account_two]", OF a]
    by (simp add: example_account_one_def example_account_two_def
        example_url_one example_url_home example_url_work)
  moreover have "find_account_for_calendar (\<lambda>n. None) [example_account_one, example_account_two]
     ''/cal/work/'' = Inr (Some example_account_one)"
    using find_account_first_match [of "\<lambda>n. None" "''/cal/work/''" "''/cal/work/''"
        "[example_account_one, example_account_two]", OF example_url_work]
    by (simp add: example_account_one_def example_account_two_def
        example_url_one example_url_home example_url_work)
  ultimately show ?thesis by simp
qed

text \<open>
  Claim C1 as stated fails: for an input URL the URL parser rejects, the resolver raises
  the parser's error; it does not return not-found, although no calendar matches.
\<close>

theorem find_account_raises:
  "find_account_for_calendar (\<lambda>n. None) [] ''http://['' = Inl (ValueError ''Invalid IPv6 URL'')"
  by code_simp

text \<open>What a successful resolution says about the account returned.\<close>

lemma scan_accounts_Some:
  assumes "scan_accounts nc n accounts = Inr (Some a)"
  shows "a \<in> set accounts \<and> has_calendar nc n (calendars a) = Inr True"
  using assms
proof (induction accounts)
  case Nil
  then show ?case by simp
next
  case (Cons b accounts)
  then show ?case
    by (cases "has_calendar nc n (calendars b)") (auto split: if_splits bool.splits)
qed

lemma find_account_Some:
  assumes "find_account_for_calendar nc accounts u = Inr (Some a)"
  shows "\<exists>n. normalize_url nc u = Inr n \<and> a \<in> set accounts
             \<and> has_calendar nc n (calendars a) = Inr True"
  using assms scan_accounts_Some[of nc _ accounts a]
  by (auto simp: find_account_for_calendar_def split: sum.splits)

text \<open>
  The account's own lookup walks the same list with the same normalization, so it stops
  at the calendar where the resolver's inner loop stopped.
\<close>

lemma find_calendar_follows:
  assumes "has_calendar (netloc_check P) n cs = Inr True"
    and "\<forall>c\<in>set cs. \<exists>cal. client_calendar P cl (url c) = Inr cal"
  shows "\<exists>c\<in>set cs. \<exists>cal. normalize_url (netloc_check P) (url c) = Inr n
            \<and> client_calendar P cl (url c) = Inr cal
            \<and> find_calendar P cl n cs = Inr (Some cal)"
  using assms
proof (induction cs)
  case Nil
  then show ?case by simp
next
  case (Cons c cs)
  show ?case
  proof (cases "normalize_url (netloc_check P) (url c)")
    case (Inl e)
    with Cons.prems show ?thesis by simp
  next
    case (Inr m)
    show ?thesis
    proof (cases "m = n")
      case True
      from Cons.prems(2) obtain cal where "client_calendar P cl (url c) = Inr cal" by auto
      with Inr True show ?thesis by auto
    next
      case False
      with Inr Cons.prems have "has_calendar (netloc_check P) n cs = Inr True" by simp
      with Cons.IH Cons.prems(2) obtain c' cal where
        "c' \<in> set cs" "normalize_url (netloc_check P) (url c') = Inr n"
        "client_calendar P cl (url c') = Inr cal" "find_calendar P cl n cs = Inr (Some cal)"
        by auto
      with Inr False show ?thesis by auto
    qed
  qed
qed

lemma resolved_lookup:
  assumes "find_account_for_calendar (netloc_check P) accounts u = Inr (Some a)"
    and "client a = Some cl" and "principal a = Some pr"
    and "\<forall>c\<in>set (calendars a). \<exists>cal. client_calendar P cl (url c) = Inr cal"
  shows "\<exists>cal. get_calendar_by_url P a u = (Some cal, [])"
proof -
  from find_account_Some[OF assms(1)] obtain n where
    n: "normalize_url (netloc_check P) u = Inr n"
    and h: "has_calendar (netloc_check P) n (calendars a) = Inr True"
    by auto
  from find_calendar_follows[OF h assms(4)] obtain cal where
    "find_calendar P cl n (calendars a) = Inr (Some cal)" by auto
  with n assms(2,3) show ?thesis by (simp add: get_calendar_by_url_def)
qed
text \<open>
  Claim C10. When the resolver returns account \<open>a\<close> for \<open>u\<close> and \<open>a\<close> is connected (its
  client and principal are set; the client builds a handle for each cached calendar
  URL), the lookup \<open>a\<close> makes itself finds a calendar for \<open>u\<close>: it is one of the cached
  calendars whose normalized URL is the normalized \<open>u\<close>. So \<open>list_events\<close>,
  \<open>create_event\<close> and \<open>delete_event\<close> enter their \<open>try\<close> block and never take the
  branch that raises \<open>Calendar not found\<close>.
\<close>

theorem resolved_calendar_found:
  assumes "find_account_for_calendar (netloc_check P) accounts u = Inr (Some a)"
    and "client a = Some cl" and "principal a = Some pr"
    and "\<forall>c\<in>set (calendars a). \<exists>cal. client_calendar P cl (url c) = Inr cal"
  shows "\<exists>cal. get_calendar_by_url P a u = (Some cal, [])
           \<and> (\<exists>c\<in>set (calendars a).
                 normalize_url (netloc_check P) (url c) = normalize_url (netloc_check P) u
                 \<and> client_calendar P cl (url c) = Inr cal)
           \<and> list_events P a u s e = list_events_try P cal u s e []
           \<and> create_event P a u summ s e descr loc new_uid now
                = create_event_try P cal u summ s e descr loc new_uid now []
           \<and> delete_event P a u target = delete_event_try P cal u target []"
proof -
  from find_account_Some[OF assms(1)] obtain n where
    n: "normalize_url (netloc_check P) u = Inr n"
    and h: "has_calendar (netloc_check P) n (calendars a) = Inr True"
    by auto
  from find_calendar_follows[OF h assms(4)] obtain c cal where
    c: "c \<in> set (calendars a)" "normalize_url (netloc_check P) (url c) = Inr n"
      "client_calendar P cl (url c) = Inr cal"
    and f: "find_calendar P cl n (calendars a) = Inr (Some cal)"
    by auto
  have g: "get_calendar_by_url P a u = (Some cal, [])"
    using n f assms(2,3) by (simp add: get_calendar_by_url_def)
  have m: "\<exists>c\<in>set (calendars a).
             normalize_url (netloc_check P) (url c) = normalize_url (netloc_check P) u
             \<and> client_calendar P cl (url c) = Inr cal"
    using c n by auto
  have l: "list_events P a u s e = list_events_try P cal u s e []"
    by (simp add: list_events_def g)
  have cr: "create_event P a u summ s e descr loc new_uid now
              = create_event_try P cal u summ s e descr loc new_uid now []"
    by (simp add: create_event_def g)
  have d: "delete_event P a u target = delete_event_try P cal u target []"
    by (simp add: delete_event_def g)
  from g m l cr d show ?thesis by blast
qed

lemma example_resolution:
  "find_account_for_calendar (netloc_check example_platform)
     [example_account_one, example_account_two] ''/cal/work/'' = Inr (Some example_account_one)"
  by (simp add: find_account_for_calendar_def example_platform_def example_account_one_def
      example_account_two_def example_url_one example_url_work)

theorem resolved_calendar_found_witness:
  "get_calendar_by_url example_platform example_account_one ''/cal/work/''
     = (Some (Calendar ''https://one.example/cal/work/''), [])"
proof -
  have n: "netloc_check example_platform = (\<lambda>n. None)"
    by (simp add: example_platform_def)
  have c: "\<forall>c\<in>set (calendars example_account_one).
             \<exists>cal. client_calendar example_platform
                     (DAVClient ''https://one.example'' ''ann'' ''secret'') (url c) = Inr cal"
    by (simp add: example_platform_def)
  have cl: "client example_account_one = Some (DAVClient ''https://one.example'' ''ann'' ''secret'')"
    by (simp add: example_account_one_def)
  have pr: "principal example_account_one = Some Principal"
    by (simp add: example_account_one_def)
  from resolved_calendar_found [OF example_resolution cl pr c,
      where s = example_start and e = example_end and summ = "''Standup''" and descr = None
        and loc = None and new_uid = "''uid-new''" and now = example_start
        and target = "''uid-standup''"]
  obtain cal where
    g: "get_calendar_by_url example_platform example_account_one ''/cal/work/'' = (Some cal, [])"
    and m: "\<exists>c\<in>set (calendars example_account_one).
              normalize_url (netloc_check example_platform) (url c)
                = normalize_url (netloc_check example_platform) ''/cal/work/''
              \<and> client_calendar example_platform
                   (DAVClient ''https://one.example'' ''ann'' ''secret'') (url c) = Inr cal"
    by blast
  from m have "cal = Calendar ''https://one.example/cal/work/''"
    by (auto simp: example_account_one_def example_platform_def)
  with g show ?thesis by simp
qed

section \<open>The error raised when no account owns the URL\<close>

text \<open>
  Claim C3. With one configured account whose calendar is \<open>/cal/work/\<close> and the unknown
  URL \<open>/nope\<close>, \<open>list_events_tool\<close> fails with a message that lists the known calendar
  URLs, while \<open>create_event_tool\<close> and \<open>delete_event_tool\<close> fail with a message that
  names the requested URL only.
\<close>

theorem no_account_messages:
  "fst (list_events_tool P [example_account_two] ''/nope'' start end_arg)
     = Inl (ValueError ''No account found for calendar URL: /nope. Available URLs: /cal/home/, /cal/work/'')
   \<and> fst (create_event_tool P [example_account_two] ''/nope'' summ start end_str descr loc new_uid now)
     = Inl (ValueError ''No account found for calendar URL: /nope'')
   \<and> fst (delete_event_tool P [example_account_two] ''/nope'' target)
     = Inl (ValueError ''No account found for calendar URL: /nope'')"
proof -
  have "find_account_for_calendar (netloc_check P) [example_account_two] ''/nope'' = Inr None"
    by (simp add: find_account_for_calendar_def normalize_url_def example_account_two_def)
  then show ?thesis
    by (simp add: list_events_tool_def create_event_tool_def delete_event_tool_def
        available_urls_def example_account_two_def)
qed
section \<open>Date arguments of the tool handlers\<close>

lemma replace_Z_concat:
  "replace_Z s = concat (map (\<lambda>c. if c = CHR ''Z'' then ''+00:00'' else [c]) s)"
  by (induction s) auto

lemma replace_Z_append: "replace_Z (s @ t) = replace_Z s @ replace_Z t"
  by (induction s) auto

lemma replace_Z_id: "CHR ''Z'' \<notin> set s \<Longrightarrow> replace_Z s = s"
  by (induction s) auto

text \<open>
  Claim C6, as amended. Every \<open>Z\<close> of a date argument, wherever it stands, becomes
  \<open>+00:00\<close> before the string goes to the platform parser. So a string whose only \<open>Z\<close>
  is the last character is parsed as the same string ending in \<open>+00:00\<close>, and a string
  without \<open>Z\<close> goes to the platform parser unchanged.
\<close>

theorem parse_date_replaces_Z:
  "parse_date P s = fromisoformat P (concat (map (\<lambda>c. if c = CHR ''Z'' then ''+00:00'' else [c]) s))
   \<and> (CHR ''Z'' \<notin> set t \<longrightarrow> parse_date P (t @ ''Z'') = fromisoformat P (t @ ''+00:00''))
   \<and> (CHR ''Z'' \<notin> set s \<longrightarrow> parse_date P s = fromisoformat P s)"
  by (simp add: parse_date_def replace_Z_append replace_Z_id replace_Z_concat [symmetric])

theorem parse_date_replaces_Z_witness:
  "parse_date example_platform ''2025-11-27T09:00:00Z''
     = Inr (example_start\<lparr>tz := Some (FixedOffset 0)\<rparr>)
   \<and> parse_date example_platform ''2025-11-27T09:00:00'' = Inr example_start"
  using parse_date_replaces_Z [of example_platform "''2025-11-27T09:00:00''" "''2025-11-27T09:00:00''"]
  by (simp add: example_platform_def example_fromisoformat_def)

text \<open>
  Claim C6 as stated fails. The platform parser takes any single character between the
  date and the time, so it accepts \<open>2025-11-27Z10:00:00\<close>; the description leaves this
  string as it is (its \<open>Z\<close> is not trailing), the code hands over
  \<open>2025-11-27+00:0010:00:00\<close>.
\<close>

theorem replace_Z_not_trailing_only:
  "replace_Z ''2025-11-27Z10:00:00'' = ''2025-11-27+00:0010:00:00''
   \<and> spec_trailing_Z ''2025-11-27Z10:00:00'' = ''2025-11-27Z10:00:00''
   \<and> replace_Z ''2025-11-27Z10:00:00'' \<noteq> spec_trailing_Z ''2025-11-27Z10:00:00''"
  by (simp add: spec_trailing_Z_def)

lemma add_days_in_range:
  assumes "0 < ordinal dt + n" and "ordinal dt + n \<le> MAXORDINAL"
  shows "add_days dt n = Inr (dt\<lparr>ordinal := ordinal dt + n\<rparr>)"
  using assms by (simp add: add_days_def)

text \<open>
  Claim C5. When \<open>list_events\<close> is called without \<open>end\<close>, the range handed to the
  account is the parsed start and the parsed start plus 30 days: the same time of day and
  time zone, 30 days later (a date within the range of \<open>datetime\<close>, that is up to
  9999-12-31).
\<close>

theorem list_events_default_end:
  assumes "find_account_for_calendar (netloc_check P) accounts u = Inr (Some a)"
    and "parse_date P start = Inr s"
    and "0 < ordinal s + 30" and "ordinal s + 30 \<le> MAXORDINAL"
  shows "list_events_range P start None = Inr (s, s\<lparr>ordinal := ordinal s + 30\<rparr>)
         \<and> list_events_tool P accounts u start None
             = (case list_events P a u s (s\<lparr>ordinal := ordinal s + 30\<rparr>) of
                  (Inl e, log) \<Rightarrow> (Inl e, log)
                | (Inr events, log) \<Rightarrow> (Inr (map (to_dict P) events), log))"
proof -
  have r: "list_events_range P start None = Inr (s, s\<lparr>ordinal := ordinal s + 30\<rparr>)"
    using assms(2) add_days_in_range[OF assms(3,4)] by (simp add: list_events_range_def)
  show ?thesis
    using assms(1) r by (simp add: list_events_tool_def)
qed

theorem list_events_default_end_witness:
  "list_events_range example_platform ''2025-11-27T09:00:00'' None
     = Inr (example_start, example_start\<lparr>ordinal := 739612\<rparr>)
   \<and> list_events_tool example_platform [example_account_one, example_account_two]
        ''/cal/work/'' ''2025-11-27T09:00:00'' None
     = (case list_events example_platform example_account_one ''/cal/work/'' example_start
               (example_start\<lparr>ordinal := 739612\<rparr>) of
          (Inl e, log) \<Rightarrow> (Inl e, log)
        | (Inr events, log) \<Rightarrow> (Inr (map (to_dict example_platform) events), log))"
proof -
  have p: "parse_date example_platform ''2025-11-27T09:00:00'' = Inr example_start"
    by (simp add: parse_date_def example_platform_def example_fromisoformat_def)
  have o: "ordinal example_start + 30 = 739612" "0 < ordinal example_start + 30"
    "ordinal example_start + 30 \<le> MAXORDINAL"
    by (simp_all add: example_start_def MAXORDINAL_def)
  from list_events_default_end [OF example_resolution p o(2,3)]
  show ?thesis unfolding o(1) .
qed
section \<open>Listing events\<close>

text \<open>The component loop only appends: its result extends the list it was given.\<close>

lemma walk_events_acc:
  "walk_events u cs r = (r @ fst (walk_events u cs []), snd (walk_events u cs []))"
proof (induction cs arbitrary: r)
  case Nil
  then show ?case by simp
next
  case (Cons c cs)
  show ?case
  proof (cases "comp_name c = ''VEVENT''")
    case False
    then show ?thesis using Cons.IH[of r] by simp
  next
    case True
    show ?thesis
    proof (cases "event_info u c")
      case (Inl e)
      with True show ?thesis by simp
    next
      case (Inr ev)
      have "walk_events u cs (r @ [ev])
              = ((r @ [ev]) @ fst (walk_events u cs []), snd (walk_events u cs []))"
        by (rule Cons.IH)
      moreover have "walk_events u cs [ev]
              = ([ev] @ fst (walk_events u cs []), snd (walk_events u cs []))"
        by (rule Cons.IH)
      ultimately show ?thesis using True Inr by simp
    qed
  qed
qed

text \<open>
  What the component loop returns: the records of the events up to the first one that
  does not convert, and whether there was one.
\<close>

lemma walk_events_prefix:
  "fst (walk_events u cs [])
     = map (\<lambda>c. projr (event_info u c)) (takeWhile (\<lambda>c. \<not> isl (event_info u c)) (vevents cs))
   \<and> (snd (walk_events u cs []) = None
        \<longleftrightarrow> list_all (\<lambda>c. \<not> isl (event_info u c)) (vevents cs))"
proof (induction cs)
  case Nil
  then show ?case by (simp add: vevents_def)
next
  case (Cons c cs)
  show ?case
  proof (cases "comp_name c = ''VEVENT''")
    case False
    then show ?thesis using Cons by (simp add: vevents_def)
  next
    case True
    show ?thesis
    proof (cases "event_info u c")
      case (Inl e)
      with True show ?thesis by (simp add: vevents_def)
    next
      case (Inr ev)
      have "walk_events u cs [ev]
              = ([ev] @ fst (walk_events u cs []), snd (walk_events u cs []))"
        by (rule walk_events_acc)
      with True Inr Cons show ?thesis by (simp add: vevents_def)
    qed
  qed
qed

lemma walk_events_valid:
  assumes "list_all (\<lambda>c. \<not> isl (event_info u c)) (vevents cs)"
  shows "walk_events u cs r = (r @ map (\<lambda>c. projr (event_info u c)) (vevents cs), None)"
proof -
  have t: "takeWhile (\<lambda>c. \<not> isl (event_info u c)) (vevents cs) = vevents cs"
    using assms by (simp add: list_all_iff)
  have "fst (walk_events u cs []) = map (\<lambda>c. projr (event_info u c)) (vevents cs)"
    using walk_events_prefix[of u cs] by (simp add: t)
  moreover have "snd (walk_events u cs []) = None"
    using walk_events_prefix[of u cs] assms by simp
  ultimately show ?thesis
    using walk_events_acc[of u cs r] by simp
qed

lemma walk_events_fails_first:
  assumes "vevents cs = c # rest" and "isl (event_info u c)"
  shows "\<exists>e. walk_events u cs r = (r, Some e)"
proof -
  have "fst (walk_events u cs []) = []"
    using walk_events_prefix[of u cs] assms by simp
  moreover have "snd (walk_events u cs []) \<noteq> None"
    using walk_events_prefix[of u cs] assms by simp
  ultimately show ?thesis
    using walk_events_acc[of u cs r] by auto
qed

text \<open>One entry of the listing, when it is valid and when it fails at once.\<close>

lemma collect_events_valid:
  assumes "entry_valid P u x"
  shows "collect_events P u (x # xs) r log = collect_events P u xs (r @ spec_entry_events P u x) log"
proof -
  from assms obtain comps where c: "from_ical P (data x) = Inr comps"
    and v: "list_all (\<lambda>c. \<not> isl (event_info u c)) (vevents comps)"
    by (auto simp: entry_valid_def split: sum.splits)
  have "spec_entry_events P u x = map (\<lambda>c. projr (event_info u c)) (vevents comps)"
    using assms c by (simp add: spec_entry_events_def)
  then show ?thesis
    using c walk_events_valid[OF v, of r] by simp
qed

lemma collect_events_fails_first:
  assumes "entry_fails_first P u x"
  shows "\<exists>e. collect_events P u (x # xs) r log
               = collect_events P u xs r (log @ [LogWarning ''Failed to parse event'' e])
             \<and> spec_entry_events P u x = []"
proof (cases "from_ical P (data x)")
  case (Inl e)
  then show ?thesis by (auto simp: spec_entry_events_def)
next
  case (Inr comps)
  with assms obtain c rest where vs: "vevents comps = c # rest" and f: "isl (event_info u c)"
    by (auto simp: entry_fails_first_def split: list.splits)
  from walk_events_fails_first[OF vs f, of r] obtain e where
    w: "walk_events u comps r = (r, Some e)" by blast
  have "\<not> entry_valid P u x"
    using Inr vs f by (simp add: entry_valid_def)
  then have "spec_entry_events P u x = []"
    using Inr by (simp add: spec_entry_events_def)
  with Inr w show ?thesis by auto
qed

lemma valid_not_fails_first:
  "entry_valid P u x \<Longrightarrow> \<not> entry_fails_first P u x"
  by (auto simp: entry_valid_def entry_fails_first_def split: sum.splits list.splits)

text \<open>The whole loop over entries of which none fails after a record was appended.\<close>

lemma collect_events_spec:
  assumes "\<forall>x\<in>set xs. entry_valid P u x \<or> entry_fails_first P u x"
  shows "\<exists>ws. collect_events P u xs r log = (r @ spec_list_events P u xs, log @ ws)
              \<and> length ws = length (filter (\<lambda>x. \<not> entry_valid P u x) xs)
              \<and> (\<forall>w\<in>set ws. \<exists>e. w = LogWarning ''Failed to parse event'' e)"
  using assms
proof (induction xs arbitrary: r log)
  case Nil
  then show ?case by (simp add: spec_list_events_def)
next
  case (Cons x xs)
  from Cons.prems have rest: "\<forall>y\<in>set xs. entry_valid P u y \<or> entry_fails_first P u y"
    by simp
  show ?case
  proof (cases "entry_valid P u x")
    case True
    from Cons.IH[OF rest, of "r @ spec_entry_events P u x" log] obtain ws where
      "collect_events P u xs (r @ spec_entry_events P u x) log
         = ((r @ spec_entry_events P u x) @ spec_list_events P u xs, log @ ws)"
      "length ws = length (filter (\<lambda>x. \<not> entry_valid P u x) xs)"
      "\<forall>w\<in>set ws. \<exists>e. w = LogWarning ''Failed to parse event'' e"
      by blast
    with True show ?thesis
      by (simp add: collect_events_valid[OF True] spec_list_events_def del: collect_events.simps)
  next
    case False
    with Cons.prems have ff: "entry_fails_first P u x" by simp
    from collect_events_fails_first[OF ff, of xs r log] obtain e where
      s: "collect_events P u (x # xs) r log
            = collect_events P u xs r (log @ [LogWarning ''Failed to parse event'' e])"
      and n: "spec_entry_events P u x = []"
      by blast
    from Cons.IH[OF rest, of r "log @ [LogWarning ''Failed to parse event'' e]"] obtain ws where
      c: "collect_events P u xs r (log @ [LogWarning ''Failed to parse event'' e])
         = (r @ spec_list_events P u xs, (log @ [LogWarning ''Failed to parse event'' e]) @ ws)"
      and l: "length ws = length (filter (\<lambda>x. \<not> entry_valid P u x) xs)"
      and w: "\<forall>w\<in>set ws. \<exists>e. w = LogWarning ''Failed to parse event'' e"
      by blast
    let ?ws = "LogWarning ''Failed to parse event'' e # ws"
    have "collect_events P u (x # xs) r log = (r @ spec_list_events P u (x # xs), log @ ?ws)"
      unfolding s c using n by (simp add: spec_list_events_def)
    moreover have "length ?ws = length (filter (\<lambda>x. \<not> entry_valid P u x) (x # xs))"
      using False l by simp
    moreover have "\<forall>w\<in>set ?ws. \<exists>e. w = LogWarning ''Failed to parse event'' e"
      using w by simp
    ultimately show ?thesis by blast
  qed
qed

text \<open>No entry makes the loop raise: it always returns a list.\<close>

lemma list_events_try_returns:
  assumes "date_search P cal s e = Inr entries"
  shows "\<exists>evs log. list_events_try P cal u s e log0 = (Inr evs, log)"
  using assms by (simp add: list_events_try_def split: prod.split)

text \<open>
  Claim C7, as amended. Once the calendar is found and the server has answered, no entry
  makes \<open>list_events\<close> raise. When every entry either is valid (its data parses and each
  of its \<open>VEVENT\<close> components converts) or fails before any of its events has been
  converted (its data does not parse, or its first \<open>VEVENT\<close> does not convert),
  \<open>list_events\<close> returns the records of all \<open>VEVENT\<close> components of the valid entries, in
  order, and logs one warning for each of the others.
\<close>

theorem list_events_skips_failed:
  assumes "get_calendar_by_url P a u = (Some cal, log0)"
    and "date_search P cal s e = Inr entries"
  shows "(\<exists>evs log. list_events P a u s e = (Inr evs, log))
         \<and> ((\<forall>x\<in>set entries. entry_valid P u x \<or> entry_fails_first P u x) \<longrightarrow>
              (\<exists>ws. list_events P a u s e = (Inr (spec_list_events P u entries), log0 @ ws)
                 \<and> length ws = length (filter (\<lambda>x. \<not> entry_valid P u x) entries)
                 \<and> (\<forall>w\<in>set ws. \<exists>er. w = LogWarning ''Failed to parse event'' er)))"
proof -
  have l: "list_events P a u s e = list_events_try P cal u s e log0"
    using assms(1) by (simp add: list_events_def)
  have total: "\<exists>evs log. list_events P a u s e = (Inr evs, log)"
    unfolding l using assms(2) by (rule list_events_try_returns)
  have clean: "\<exists>ws. list_events P a u s e = (Inr (spec_list_events P u entries), log0 @ ws)
                 \<and> length ws = length (filter (\<lambda>x. \<not> entry_valid P u x) entries)
                 \<and> (\<forall>w\<in>set ws. \<exists>er. w = LogWarning ''Failed to parse event'' er)"
    if h: "\<forall>x\<in>set entries. entry_valid P u x \<or> entry_fails_first P u x"
  proof -
    from collect_events_spec[OF h, of "[]" log0] obtain ws where
      c: "collect_events P u entries [] log0 = ([] @ spec_list_events P u entries, log0 @ ws)"
      and n: "length ws = length (filter (\<lambda>x. \<not> entry_valid P u x) entries)"
      and w: "\<forall>w\<in>set ws. \<exists>e. w = LogWarning ''Failed to parse event'' e"
      by blast
    have "list_events P a u s e = (Inr (spec_list_events P u entries), log0 @ ws)"
      unfolding l using assms(2) c by (simp add: list_events_try_def)
    with n w show ?thesis by blast
  qed
  from total clean show ?thesis by blast
qed
text \<open>The example calendar, looked up and listed.\<close>

lemma example_lookup:
  "get_calendar_by_url example_platform example_account_one ''/cal/work/''
     = (Some (Calendar ''https://one.example/cal/work/''), [])"
  by (simp add: get_calendar_by_url_def example_account_one_def example_platform_def
      example_url_one example_url_work)

lemma example_mixed_lookup:
  "get_calendar_by_url example_mixed_platform example_account_one ''/cal/work/''
     = (Some (Calendar ''https://one.example/cal/work/''), [])"
  by (simp add: get_calendar_by_url_def example_account_one_def example_platform_def
      example_mixed_platform_def example_url_one example_url_work)

lemma example_event_infos:
  "event_info ''/cal/work/'' example_standup = Inr example_standup_info"
  "event_info ''/cal/work/'' example_holiday = Inr example_holiday_info"
  "event_info ''/cal/work/'' example_open_ended = Inl AttributeError"
  by (simp_all add: event_info_def example_standup_def example_holiday_def
      example_open_ended_def example_standup_info_def example_holiday_info_def
      combine_midnight_def)

lemma example_comp_names:
  "comp_name example_vcalendar = ''VCALENDAR''" "comp_name example_standup = ''VEVENT''"
  "comp_name example_holiday = ''VEVENT''" "comp_name example_open_ended = ''VEVENT''"
  by (simp_all add: example_vcalendar_def example_standup_def example_holiday_def
      example_open_ended_def)

lemma example_listing:
  "list_events example_platform example_account_one ''/cal/work/'' s e
     = (Inr [example_holiday_info, example_standup_info, example_standup_info],
        [LogWarning ''Failed to parse event'' ParseError])"
  by (simp add: list_events_def list_events_try_def example_lookup)
     (simp add: example_platform_def example_objects_def example_from_ical_def
      example_event_infos example_comp_names)

theorem list_events_skips_failed_witness:
  "fst (list_events example_platform example_account_one ''/cal/work/'' example_start example_end)
     = Inr (spec_list_events example_platform ''/cal/work/'' example_objects)
   \<and> spec_list_events example_platform ''/cal/work/'' example_objects
       = [example_holiday_info, example_standup_info, example_standup_info]"
proof -
  have d: "date_search example_platform (Calendar ''https://one.example/cal/work/'')
             example_start example_end = Inr example_objects"
    by (simp add: example_platform_def)
  have f: "from_ical example_platform = example_from_ical"
    by (simp add: example_platform_def)
  have v: "vevents [example_vcalendar, example_standup] = [example_standup]"
    "vevents [example_vcalendar, example_holiday] = [example_holiday]"
    by (simp_all add: vevents_def example_comp_names)
  have h: "\<forall>x\<in>set example_objects.
             entry_valid example_platform ''/cal/work/'' x
             \<or> entry_fails_first example_platform ''/cal/work/'' x"
    by (simp add: example_objects_def entry_valid_def entry_fails_first_def f
        example_from_ical_def v example_event_infos)
  have s: "spec_list_events example_platform ''/cal/work/'' example_objects
             = [example_holiday_info, example_standup_info, example_standup_info]"
    by (simp add: spec_list_events_def spec_entry_events_def entry_valid_def example_objects_def
        f example_from_ical_def v example_event_infos)
  from list_events_skips_failed [OF example_lookup d] h
  have "\<exists>ws. list_events example_platform example_account_one ''/cal/work/'' example_start example_end
               = (Inr (spec_list_events example_platform ''/cal/work/'' example_objects), [] @ ws)"
    by blast
  then have "fst (list_events example_platform example_account_one ''/cal/work/'' example_start example_end)
               = Inr (spec_list_events example_platform ''/cal/work/'' example_objects)"
    by auto
  with s show ?thesis by simp
qed

text \<open>
  Claim C7 as stated fails. An entry with a complete event followed by an event without
  \<open>DTEND\<close> fails to parse (the warning is logged), yet it is not skipped: the record of
  its first event stays in the result.
\<close>

theorem list_events_keeps_partial:
  "list_events example_mixed_platform example_account_one ''/cal/work/'' example_start example_end
     = (Inr [example_standup_info], [LogWarning ''Failed to parse event'' AttributeError])
   \<and> spec_list_events example_mixed_platform ''/cal/work/''
        [\<lparr>href = ''/cal/work/4.ics'', data = ''mixed''\<rparr>] = []"
proof -
  have f: "from_ical example_mixed_platform = example_from_ical"
    "date_search example_mixed_platform (Calendar ''https://one.example/cal/work/'')
       example_start example_end = Inr [\<lparr>href = ''/cal/work/4.ics'', data = ''mixed''\<rparr>]"
    by (simp_all add: example_mixed_platform_def example_platform_def)
  have v: "vevents [example_vcalendar, example_standup, example_open_ended]
             = [example_standup, example_open_ended]"
    by (simp add: vevents_def example_comp_names)
  have a: "list_events example_mixed_platform example_account_one ''/cal/work/'' example_start example_end
     = (Inr [example_standup_info], [LogWarning ''Failed to parse event'' AttributeError])"
    by (simp add: list_events_def list_events_try_def example_mixed_lookup f
        example_from_ical_def example_event_infos example_comp_names)
  have b: "spec_list_events example_mixed_platform ''/cal/work/''
        [\<lparr>href = ''/cal/work/4.ics'', data = ''mixed''\<rparr>] = []"
    by (simp add: spec_list_events_def spec_entry_events_def entry_valid_def f
        example_from_ical_def v example_event_infos)
  from a b show ?thesis by simp
qed

section \<open>Dates without a time\<close>

lemma walk_events_elem:
  assumes "ev \<in> set (fst (walk_events u cs r))"
  shows "ev \<in> set r \<or> (\<exists>c\<in>set cs. comp_name c = ''VEVENT'' \<and> event_info u c = Inr ev)"
  using assms
proof (induction cs arbitrary: r)
  case Nil
  then show ?case by simp
next
  case (Cons c cs)
  show ?case
  proof (cases "comp_name c = ''VEVENT''")
    case False
    with Cons.prems have "ev \<in> set (fst (walk_events u cs r))" by simp
    from Cons.IH[OF this] show ?thesis by auto
  next
    case True
    show ?thesis
    proof (cases "event_info u c")
      case (Inl e)
      with True Cons.prems show ?thesis by simp
    next
      case (Inr ev')
      with True Cons.prems have "ev \<in> set (fst (walk_events u cs (r @ [ev'])))" by simp
      from Cons.IH[OF this] True Inr show ?thesis by auto
    qed
  qed
qed

lemma collect_events_elem:
  assumes "ev \<in> set (fst (collect_events P u xs r log))"
  shows "ev \<in> set r
         \<or> (\<exists>x\<in>set xs. \<exists>comps. from_ical P (data x) = Inr comps
               \<and> (\<exists>c\<in>set comps. comp_name c = ''VEVENT'' \<and> event_info u c = Inr ev))"
  using assms
proof (induction xs arbitrary: r log)
  case Nil
  then show ?case by simp
next
  case (Cons x xs)
  show ?case
  proof (cases "from_ical P (data x)")
    case (Inl e)
    with Cons.prems have
      "ev \<in> set (fst (collect_events P u xs r (log @ [LogWarning ''Failed to parse event'' e])))"
      by simp
    from Cons.IH[OF this] show ?thesis by auto
  next
    case (Inr comps)
    obtain r' eo where w: "walk_events u comps r = (r', eo)" by (cases "walk_events u comps r")
    have "\<exists>log'. ev \<in> set (fst (collect_events P u xs r' log'))"
      using Cons.prems Inr w by (cases eo) auto
    then obtain log' where "ev \<in> set (fst (collect_events P u xs r' log'))" by blast
    from Cons.IH[OF this] have
      "ev \<in> set r' \<or> (\<exists>x\<in>set xs. \<exists>comps. from_ical P (data x) = Inr comps
               \<and> (\<exists>c\<in>set comps. comp_name c = ''VEVENT'' \<and> event_info u c = Inr ev))" .
    moreover have "ev \<in> set r' \<Longrightarrow>
        ev \<in> set r \<or> (\<exists>c\<in>set comps. comp_name c = ''VEVENT'' \<and> event_info u c = Inr ev)"
      using walk_events_elem[of ev u comps r] w by simp
    ultimately show ?thesis using Inr by auto
  qed
qed

text \<open>What \<open>event_info\<close> does with the start and the end of a component.\<close>

lemma event_info_times:
  assumes "event_info u c = Inr ev"
  shows "\<exists>x y. dtstart c = Some x \<and> dtend c = Some y
           \<and> (case x of
                DateValue d \<Rightarrow> ev_start ev = \<lparr>ordinal = d, hour = 0, minute = 0, second = 0,
                                                microsecond = 0, tz = None\<rparr>
              | DateTimeValue t \<Rightarrow> ev_start ev = t
              | OtherValue \<Rightarrow> False)
           \<and> (case y of
                DateValue d \<Rightarrow> ev_end ev = \<lparr>ordinal = d, hour = 0, minute = 0, second = 0,
                                              microsecond = 0, tz = None\<rparr>
              | DateTimeValue t \<Rightarrow> ev_end ev = t
              | OtherValue \<Rightarrow> False)"
proof -
  from assms obtain x y where xy: "dtstart c = Some x" "dtend c = Some y"
    by (auto simp: event_info_def split: option.splits)
  from assms xy obtain sd ed where t: "to_datetime x = Inr sd" "to_datetime y = Inr ed"
    and ev: "ev_start ev = sd" "ev_end ev = ed"
    by (auto simp: event_info_def split: sum.splits)
  from t ev have
    "(case x of
        DateValue d \<Rightarrow> ev_start ev = \<lparr>ordinal = d, hour = 0, minute = 0, second = 0,
                                        microsecond = 0, tz = None\<rparr>
      | DateTimeValue t \<Rightarrow> ev_start ev = t
      | OtherValue \<Rightarrow> False)"
    "(case y of
        DateValue d \<Rightarrow> ev_end ev = \<lparr>ordinal = d, hour = 0, minute = 0, second = 0,
                                      microsecond = 0, tz = None\<rparr>
      | DateTimeValue t \<Rightarrow> ev_end ev = t
      | OtherValue \<Rightarrow> False)"
    by (cases x; cases y; auto simp: combine_midnight_def)+
  with xy show ?thesis by blast
qed

text \<open>
  Claim C8. Every record \<open>list_events\<close> returns comes from a \<open>VEVENT\<close> component of an
  entry the server returned. Where the start (the end) of that component is a date without
  a time, the record's start (end) is that date at 00:00:00, without time zone; where it
  is a date with time, the record holds it as it is.
\<close>

theorem list_events_midnight:
  assumes "list_events P a u s e = (Inr evs, log)" and "ev \<in> set evs"
  shows "\<exists>cal entries. date_search P cal s e = Inr entries
           \<and> (\<exists>obj\<in>set entries. \<exists>comps. from_ical P (data obj) = Inr comps
                \<and> (\<exists>c\<in>set comps. comp_name c = ''VEVENT''
                     \<and> (\<exists>x y. dtstart c = Some x \<and> dtend c = Some y
                          \<and> (case x of
                               DateValue d \<Rightarrow>
                                 ev_start ev = \<lparr>ordinal = d, hour = 0, minute = 0, second = 0,
                                                 microsecond = 0, tz = None\<rparr>
                             | DateTimeValue t \<Rightarrow> ev_start ev = t
                             | OtherValue \<Rightarrow> False)
                          \<and> (case y of
                               DateValue d \<Rightarrow>
                                 ev_end ev = \<lparr>ordinal = d, hour = 0, minute = 0, second = 0,
                                               microsecond = 0, tz = None\<rparr>
                             | DateTimeValue t \<Rightarrow> ev_end ev = t
                             | OtherValue \<Rightarrow> False))))"
proof -
  from assms(1) obtain cal log0 where g: "get_calendar_by_url P a u = (Some cal, log0)"
    and l: "list_events_try P cal u s e log0 = (Inr evs, log)"
    by (auto simp: list_events_def split: prod.splits option.splits)
  from l obtain entries where d: "date_search P cal s e = Inr entries"
    and c: "evs = fst (collect_events P u entries [] log0)"
    by (auto simp: list_events_try_def split: sum.splits prod.splits)
  from assms(2) c have "ev \<in> set (fst (collect_events P u entries [] log0))" by simp
  from collect_events_elem[OF this] obtain obj comps c where
    o: "obj \<in> set entries" "from_ical P (data obj) = Inr comps" "c \<in> set comps"
      "comp_name c = ''VEVENT''" "event_info u c = Inr ev"
    by auto
  from event_info_times[OF o(5)] o(1-4) d show ?thesis by blast
qed

theorem list_events_midnight_witness:
  "ev_start example_holiday_info
     = \<lparr>ordinal = 739582, hour = 0, minute = 0, second = 0, microsecond = 0, tz = None\<rparr>
   \<and> (\<exists>cal entries. date_search example_platform cal example_start example_end = Inr entries
        \<and> (\<exists>obj\<in>set entries. \<exists>comps. from_ical example_platform (data obj) = Inr comps
             \<and> (\<exists>c\<in>set comps. comp_name c = ''VEVENT''
                  \<and> (\<exists>x y. dtstart c = Some x \<and> dtend c = Some y
                       \<and> (case x of
                            DateValue d \<Rightarrow>
                              ev_start example_holiday_info
                                = \<lparr>ordinal = d, hour = 0, minute = 0, second = 0,
                                   microsecond = 0, tz = None\<rparr>
                          | DateTimeValue t \<Rightarrow> ev_start example_holiday_info = t
                          | OtherValue \<Rightarrow> False)
                       \<and> (case y of
                            DateValue d \<Rightarrow>
                              ev_end example_holiday_info
                                = \<lparr>ordinal = d, hour = 0, minute = 0, second = 0,
                                   microsecond = 0, tz = None\<rparr>
                          | DateTimeValue t \<Rightarrow> ev_end example_holiday_info = t
                          | OtherValue \<Rightarrow> False)))))"
proof -
  have m: "example_holiday_info
             \<in> set [example_holiday_info, example_standup_info, example_standup_info]"
    by simp
  have "ev_start example_holiday_info
     = \<lparr>ordinal = 739582, hour = 0, minute = 0, second = 0, microsecond = 0, tz = None\<rparr>"
    by (simp add: example_holiday_info_def)
  with list_events_midnight [OF example_listing m, of example_start example_end]
  show ?thesis by (intro conjI)
qed
section \<open>Deleting an event\<close>

lemma walk_match_iff:
  "walk_match t cs \<longleftrightarrow> list_ex (\<lambda>c. comp_name c = ''VEVENT'' \<and> get_str (uid c) = t) cs"
  by (induction cs) auto

text \<open>One step of the scan, by what the entry is.\<close>

lemma delete_scan_skip:
  assumes "\<not> contains_uid P t x"
  shows "\<exists>log'. delete_scan P u t (x # xs) log = delete_scan P u t xs log'"
  using assms
  by (cases "from_ical P (data x)") (auto simp: contains_uid_def walk_match_iff)

lemma delete_scan_hit:
  assumes "contains_uid P t x" and "event_delete P x = None"
  shows "fst (delete_scan P u t (x # xs) log) = Some x"
  using assms
  by (cases "from_ical P (data x)") (auto simp: contains_uid_def walk_match_iff)

lemma delete_scan_none:
  assumes "\<forall>x\<in>set xs. \<not> contains_uid P t x"
  shows "fst (delete_scan P u t xs log) = None"
  using assms
proof (induction xs arbitrary: log)
  case Nil
  then show ?case by simp
next
  case (Cons x xs)
  then have "\<not> contains_uid P t x" by simp
  from delete_scan_skip[OF this, of u xs log] obtain log' where
    "delete_scan P u t (x # xs) log = delete_scan P u t xs log'" by blast
  with Cons show ?case by simp
qed

lemma delete_scan_first:
  assumes "\<forall>y\<in>set pre. \<not> contains_uid P t y"
    and "contains_uid P t x" and "event_delete P x = None"
  shows "fst (delete_scan P u t (pre @ x # post) log) = Some x"
  using assms(1)
proof (induction pre arbitrary: log)
  case Nil
  show ?case using delete_scan_hit[OF assms(2,3)] by simp
next
  case (Cons y pre)
  then have "\<not> contains_uid P t y" by simp
  from delete_scan_skip[OF this, of u "pre @ x # post" log] obtain log' where
    "delete_scan P u t (y # pre @ x # post) log = delete_scan P u t (pre @ x # post) log'"
    by blast
  with Cons show ?case by simp
qed

lemma delete_scan_Some:
  assumes "fst (delete_scan P u t xs log) = Some x"
  shows "x \<in> set xs \<and> contains_uid P t x \<and> event_delete P x = None"
  using assms
proof (induction xs arbitrary: log)
  case Nil
  then show ?case by simp
next
  case (Cons y xs)
  show ?case
  proof (cases "contains_uid P t y \<and> event_delete P y = None")
    case True
    then have "fst (delete_scan P u t (y # xs) log) = Some y"
      using delete_scan_hit by blast
    with Cons.prems True show ?thesis by simp
  next
    case False
    have "\<exists>log'. delete_scan P u t (y # xs) log = delete_scan P u t xs log'"
    proof (cases "contains_uid P t y")
      case False
      then show ?thesis by (rule delete_scan_skip)
    next
      case True
      with False obtain er where "event_delete P y = Some er" by auto
      with True show ?thesis
        by (cases "from_ical P (data y)") (auto simp: contains_uid_def walk_match_iff)
    qed
    then obtain log' where "delete_scan P u t (y # xs) log = delete_scan P u t xs log'" by blast
    with Cons.prems have "fst (delete_scan P u t xs log') = Some x" by simp
    from Cons.IH[OF this] show ?thesis by simp
  qed
qed

lemma delete_event_try_result:
  assumes "calendar_events P cal = Inr events"
  shows "fst (delete_scan P u t events log0) = None \<Longrightarrow>
           \<exists>log. delete_event_try P cal u t log0
                   = (Inl (ValueError (''Event with UID '' @ t @ '' not found in calendar'')), None, log)"
    and "fst (delete_scan P u t events log0) = Some x \<Longrightarrow>
           \<exists>log. delete_event_try P cal u t log0 = (Inr (), Some x, log)"
  using assms
  by (auto simp: delete_event_try_def Let_def split: prod.splits option.splits)

text \<open>
  Claim C9. With the calendar found and its entries fetched: when no entry contains a
  \<open>VEVENT\<close> with the requested UID (entries that do not parse contain none),
  \<open>delete_event\<close> fails with the not-found error and nothing is deleted; the first entry
  that contains one is the one deleted, when the server accepts the deletion, and the call
  returns at once; and whenever \<open>delete_event\<close> succeeds, an entry with the requested UID
  has been deleted.
\<close>

theorem delete_event_first_match:
  assumes "get_calendar_by_url P a u = (Some cal, log0)"
    and "calendar_events P cal = Inr events"
  shows "((\<forall>x\<in>set events. \<not> contains_uid P t x) \<longrightarrow>
            (\<exists>log. delete_event P a u t
               = (Inl (ValueError (''Event with UID '' @ t @ '' not found in calendar'')), None, log)))
         \<and> (\<forall>pre x post. events = pre @ x # post \<and> (\<forall>y\<in>set pre. \<not> contains_uid P t y)
                \<and> contains_uid P t x \<and> event_delete P x = None \<longrightarrow>
              (\<exists>log. delete_event P a u t = (Inr (), Some x, log)))
         \<and> (\<forall>d log. delete_event P a u t = (Inr (), d, log) \<longrightarrow>
              (\<exists>x\<in>set events. d = Some x \<and> contains_uid P t x \<and> event_delete P x = None))"
proof -
  have l: "delete_event P a u t = delete_event_try P cal u t log0"
    using assms(1) by (simp add: delete_event_def)
  have c1: "(\<forall>x\<in>set events. \<not> contains_uid P t x) \<longrightarrow>
            (\<exists>log. delete_event P a u t
               = (Inl (ValueError (''Event with UID '' @ t @ '' not found in calendar'')), None, log))"
    unfolding l using delete_event_try_result(1)[OF assms(2)] delete_scan_none by blast
  have c2: "\<forall>pre x post. events = pre @ x # post \<and> (\<forall>y\<in>set pre. \<not> contains_uid P t y)
                \<and> contains_uid P t x \<and> event_delete P x = None \<longrightarrow>
              (\<exists>log. delete_event P a u t = (Inr (), Some x, log))"
  proof (intro allI impI)
    fix pre x post
    assume h: "events = pre @ x # post \<and> (\<forall>y\<in>set pre. \<not> contains_uid P t y)
                \<and> contains_uid P t x \<and> event_delete P x = None"
    then have "fst (delete_scan P u t (pre @ x # post) log0) = Some x"
      by (intro delete_scan_first) auto
    with h have "fst (delete_scan P u t events log0) = Some x" by simp
    from delete_event_try_result(2)[OF assms(2) this]
    show "\<exists>log. delete_event P a u t = (Inr (), Some x, log)" unfolding l .
  qed
  have c3: "\<forall>d log. delete_event P a u t = (Inr (), d, log) \<longrightarrow>
              (\<exists>x\<in>set events. d = Some x \<and> contains_uid P t x \<and> event_delete P x = None)"
  proof (intro allI impI)
    fix d log
    assume "delete_event P a u t = (Inr (), d, log)"
    then have t: "delete_event_try P cal u t log0 = (Inr (), d, log)" by (simp add: l)
    then obtain x where "d = Some x" "fst (delete_scan P u t events log0) = Some x"
      using assms(2)
      by (auto simp: delete_event_try_def Let_def split: prod.splits option.splits)
    with delete_scan_Some[of P u t events log0 x]
    show "\<exists>x\<in>set events. d = Some x \<and> contains_uid P t x \<and> event_delete P x = None"
      by auto
  qed
  from c1 c2 c3 show ?thesis by (intro conjI)
qed

theorem delete_event_first_match_witness:
  "(\<exists>log. delete_event example_platform example_account_one ''/cal/work/'' ''uid-standup''
      = (Inr (), Some \<lparr>href = ''/cal/work/2.ics'', data = ''standup''\<rparr>, log))
   \<and> (\<exists>log. delete_event example_platform example_account_one ''/cal/work/'' ''uid-unknown''
      = (Inl (ValueError ''Event with UID uid-unknown not found in calendar''), None, log))"
proof -
  have e: "calendar_events example_platform (Calendar ''https://one.example/cal/work/'')
             = Inr example_objects"
    by (simp add: example_platform_def)
  have f: "from_ical example_platform = example_from_ical"
    "event_delete example_platform \<lparr>href = ''/cal/work/2.ics'', data = ''standup''\<rparr> = None"
    by (simp_all add: example_platform_def)
  have u: "get_str (uid example_standup) = ''uid-standup''"
    "get_str (uid example_holiday) = ''uid-holiday''" "get_str (uid example_vcalendar) = []"
    by (simp_all add: example_standup_def example_holiday_def example_vcalendar_def)
  have s: "example_objects
             = [\<lparr>href = ''/cal/work/0.ics'', data = ''garbage''\<rparr>,
                \<lparr>href = ''/cal/work/1.ics'', data = ''holiday''\<rparr>]
               @ \<lparr>href = ''/cal/work/2.ics'', data = ''standup''\<rparr>
               # [\<lparr>href = ''/cal/work/3.ics'', data = ''standup''\<rparr>]"
    by (simp add: example_objects_def)
  have h1: "\<forall>y\<in>set [\<lparr>href = ''/cal/work/0.ics'', data = ''garbage''\<rparr>,
                      \<lparr>href = ''/cal/work/1.ics'', data = ''holiday''\<rparr>].
              \<not> contains_uid example_platform ''uid-standup'' y"
    by (simp add: contains_uid_def f example_from_ical_def u example_comp_names)
  have h2: "contains_uid example_platform ''uid-standup''
              \<lparr>href = ''/cal/work/2.ics'', data = ''standup''\<rparr>"
    by (simp add: contains_uid_def f example_from_ical_def u example_comp_names)
  have h3: "\<forall>x\<in>set example_objects. \<not> contains_uid example_platform ''uid-unknown'' x"
    by (simp add: example_objects_def contains_uid_def f example_from_ical_def u example_comp_names)
  note th = delete_event_first_match [OF example_lookup e]
  have "\<exists>log. delete_event example_platform example_account_one ''/cal/work/'' ''uid-standup''
      = (Inr (), Some \<lparr>href = ''/cal/work/2.ics'', data = ''standup''\<rparr>, log)"
    using th [of "''uid-standup''"] s h1 h2 f(2) by blast
  moreover have "\<exists>log. delete_event example_platform example_account_one ''/cal/work/'' ''uid-unknown''
      = (Inl (ValueError ''Event with UID uid-unknown not found in calendar''), None, log)"
    using th [of "''uid-unknown''"] h3 by simp
  ultimately show ?thesis by (intro conjI)
qed

end
